theory Spec2Isabelle
  imports Complex_Main "HOL-Library.Signed_Division"
begin

section \<open>Modelling conventions\<close>

text \<open>
  The C sources compute with \<^verbatim>\<open>float\<close> and \<^verbatim>\<open>double\<close>. Both are modelled as \<open>real\<close>: the
  properties below concern control flow, frames, aliasing and algebraic identities of the
  code, none of which depends on rounding. C \<^verbatim>\<open>int\<close> is modelled as \<open>int\<close> (the one
  computed \<^verbatim>\<open>int\<close> that can leave its range, the width of the charge cloud, is checked
  where it is used), loop counters that start at zero and only grow
  as \<open>nat\<close>. Output to \<^verbatim>\<open>stdout\<close> (\<^verbatim>\<open>printf\<close>, \<^verbatim>\<open>TELL_NORMAL\<close>, \<^verbatim>\<open>TELL_CHATTY\<close>) is not
  modelled, but an array read among the arguments of a \<^verbatim>\<open>printf\<close> is.

  An infinity or a NaN has no counterpart in \<open>real\<close>. Where the code converts such a value
  to \<^verbatim>\<open>int\<close> the model faults; a theorem about the preamplifier, whose time constant is a
  quotient, states that the divisor is not zero.

  The fields of \<^verbatim>\<open>point\<close> and \<^verbatim>\<open>cyl_pt\<close> carry a prefix (\<open>px\<close> for \<^verbatim>\<open>pt.x\<close>, \<open>cr\<close> for
  \<^verbatim>\<open>pt.r\<close>), since one-letter constants would capture the variables of every statement.
\<close>

record point =
  px :: real
  py :: real
  pz :: real

type_synonym vector = point

record cyl_pt =
  cr :: real
  cphi :: real
  cz :: real

text \<open>
  \<^verbatim>\<open>MJD_Siggen_Setup\<close> (mjd_siggen.h), restricted to the fields that the modelled functions
  read or write. The two drift-path buffers are arrays of \<^verbatim>\<open>point\<close>.
\<close>

record MJD_Siggen_Setup =
  top_bullet_radius :: real
  pc_length :: real
  pc_radius :: real
  taper_length :: real
  impurity_z0 :: real
  xtal_temp :: real
  preamp_tau :: real
  time_steps_calc :: int
  step_time_calc :: real
  step_time_out :: real
  charge_cloud_size :: real
  use_diffusion :: int
  ntsteps_out :: int
  rmax :: real
  zmax :: real
  dpath_e :: "nat \<Rightarrow> point"
  dpath_h :: "nat \<Rightarrow> point"
  initial_vel :: real
  final_vel :: real
  final_charge_size_sq :: real

section \<open>detector\_geometry.c\<close>

definition SQ :: "real \<Rightarrow> real" where
  "SQ a = a * a"

text \<open>
  \<^verbatim>\<open>&&\<close> is short-circuit: the square root of the bullet test is taken only when
  \<open>zmax - br < z < zmax\<close>, where its argument is positive, so C's NaN for a negative
  argument never arises (lemma \<open>bullet_sqrt_arg_pos\<close>).
\<close>

definition outside_detector :: "point \<Rightarrow> MJD_Siggen_Setup \<Rightarrow> int" where
  "outside_detector pt setup =
    (let zz = pz pt in
     if zz \<ge> zmax setup \<or> zz < 0 then 1
     else let r = sqrt (SQ (px pt) + SQ (py pt)) in
       if r > rmax setup then 1
       else let br = top_bullet_radius setup in
         if zz > zmax setup - br \<and>
            r > (rmax setup - br) + sqrt (SQ br - SQ (zz - (zmax setup - br))) then 1
         else if pc_radius setup > 0 \<and>
                 zz \<le> pc_length setup \<and> r \<le> pc_radius setup then 1
         else if taper_length setup > 0 \<and> zz < taper_length setup \<and>
                 r > zmax setup - taper_length setup + zz then 1
         else 0)"

definition outside_detector_cyl :: "cyl_pt \<Rightarrow> MJD_Siggen_Setup \<Rightarrow> int" where
  "outside_detector_cyl pt setup =
    (let zz = cz pt in
     if zz \<ge> zmax setup \<or> zz < 0 then 1
     else let r = cr pt in
       if r > rmax setup then 1
       else let br = top_bullet_radius setup in
         if zz > zmax setup - br \<and>
            r > (rmax setup - br) + sqrt (SQ br - SQ (zz - (zmax setup - br))) then 1
         else if pc_radius setup > 0 \<and>
                 zz \<le> pc_length setup \<and> r \<le> pc_radius setup then 1
         else if taper_length setup > 0 \<and> zz < taper_length setup \<and>
                 r > zmax setup - taper_length setup + zz then 1
         else 0)"

text \<open>
  The predicate of the specification (section 4.A), word for word, with \<open>L_z = zmax\<close>,
  \<open>R_max = rmax\<close>, \<open>b_t = top_bullet_radius\<close>, \<open>L_c = pc_length\<close>, \<open>R_c = pc_radius\<close>,
  \<open>L_t = taper_length\<close>.
\<close>

definition inside_spec :: "real \<Rightarrow> real \<Rightarrow> MJD_Siggen_Setup \<Rightarrow> bool" where
  "inside_spec r zz setup =
    ((0 \<le> zz \<and> zz < zmax setup) \<and>
     r \<le> rmax setup \<and>
     (if zz > zmax setup - top_bullet_radius setup
      then r \<le> (rmax setup - top_bullet_radius setup) +
             sqrt ((top_bullet_radius setup)\<^sup>2 - (zz - (zmax setup - top_bullet_radius setup))\<^sup>2)
      else True) \<and>
     \<not> (zz \<le> pc_length setup \<and> r \<le> pc_radius setup) \<and>
     \<not> (zz < taper_length setup \<and> r > zmax setup - taper_length setup + zz))"

text \<open>
  The same predicate with the one change the code makes: the point-contact cavity is
  cut out only when the contact has a positive radius.
\<close>

definition inside_code :: "real \<Rightarrow> real \<Rightarrow> MJD_Siggen_Setup \<Rightarrow> bool" where
  "inside_code r zz setup =
    ((0 \<le> zz \<and> zz < zmax setup) \<and>
     r \<le> rmax setup \<and>
     (if zz > zmax setup - top_bullet_radius setup
      then r \<le> (rmax setup - top_bullet_radius setup) +
             sqrt ((top_bullet_radius setup)\<^sup>2 - (zz - (zmax setup - top_bullet_radius setup))\<^sup>2)
      else True) \<and>
     \<not> (pc_radius setup > 0 \<and> zz \<le> pc_length setup \<and> r \<le> pc_radius setup) \<and>
     \<not> (zz < taper_length setup \<and> r > zmax setup - taper_length setup + zz))"

section \<open>calc\_signal.c: rc\_integrate\<close>

text \<open>
  \<^verbatim>\<open>rc_integrate\<close> may be called with \<^verbatim>\<open>s_out == s_in\<close>, so the two buffers live in one
  store: a flat memory of \<^verbatim>\<open>float\<close> cells addressed by integers. A \<^verbatim>\<open>float *\<close> is the
  address of its first cell, \<^verbatim>\<open>p[j]\<close> is the cell \<open>p + j\<close>.
\<close>

type_synonym heap = "int \<Rightarrow> real"

text \<open>\<^verbatim>\<open>for (j = time_steps-1; j > 0; j--) s_out[j] = s_in[j-1];\<close>\<close>

function rc_shift :: "int \<Rightarrow> int \<Rightarrow> int \<Rightarrow> heap \<Rightarrow> heap" where
  "rc_shift s_in s_out j h =
    (if j > 0 then rc_shift s_in s_out (j - 1) (h(s_out + j := h (s_in + (j - 1))))
     else h)"
  by pat_completeness auto
termination
  by (relation "measure (\<lambda>(s_in, s_out, j, h). nat j)") auto

declare rc_shift.simps [simp del]

text \<open>
  \<^verbatim>\<open>for (j = 1; j < time_steps; j++) { s = s_out[j-1] + (s_in_old - s_out[j-1])/tau;
  s_in_old = s_in[j]; s_out[j] = s; }\<close>
\<close>

function rc_filter :: "int \<Rightarrow> int \<Rightarrow> real \<Rightarrow> int \<Rightarrow> int \<Rightarrow> real \<Rightarrow> heap \<Rightarrow> heap" where
  "rc_filter s_in s_out tau time_steps j s_in_old h =
    (if j < time_steps then
       let s = h (s_out + (j - 1)) + (s_in_old - h (s_out + (j - 1))) / tau;
           s_in_old' = h (s_in + j)
       in rc_filter s_in s_out tau time_steps (j + 1) s_in_old' (h(s_out + j := s))
     else h)"
  by pat_completeness auto
termination
  by (relation "measure (\<lambda>(s_in, s_out, tau, time_steps, j, s_in_old, h). nat (time_steps - j))")
    auto

declare rc_filter.simps [simp del]

definition rc_integrate :: "int \<Rightarrow> int \<Rightarrow> real \<Rightarrow> int \<Rightarrow> heap \<Rightarrow> int \<times> heap" where
  "rc_integrate s_in s_out tau time_steps h =
    (if tau < 1 then
       (0, (rc_shift s_in s_out (time_steps - 1) h)(s_out + 0 := 0))
     else
       let s_in_old = h (s_in + 0);
           h1 = h(s_out + 0 := 0)
       in (0, rc_filter s_in s_out tau time_steps 1 s_in_old h1))"

text \<open>The first \<open>n\<close> cells of the array at address \<open>p\<close>.\<close>

definition read_array :: "heap \<Rightarrow> int \<Rightarrow> int \<Rightarrow> real list" where
  "read_array h p n = map (\<lambda>j. h (p + int j)) [0..<nat n]"

text \<open>
  The recurrence of the specification (section 4.E (iii)) on an input sequence \<open>x\<close>:
  \<open>y[0] = 0\<close>, \<open>y[j] = y[j-1] + (x[j-1] - y[j-1])/\<tau>\<close>.
\<close>

fun rc_recurrence :: "real \<Rightarrow> (nat \<Rightarrow> real) \<Rightarrow> nat \<Rightarrow> real" where
  "rc_recurrence tau xs 0 = 0"
| "rc_recurrence tau xs (Suc j) =
     rc_recurrence tau xs j + (xs j - rc_recurrence tau xs j) / tau"

text \<open>
  The last step of \<^verbatim>\<open>get_signal\<close> (lines 184-187): the RC integration for the preamplifier
  rise time, in place on the output array.
\<close>

definition rc_preamp :: "MJD_Siggen_Setup \<Rightarrow> int \<Rightarrow> heap \<Rightarrow> heap" where
  "rc_preamp setup signal_out h =
    (if preamp_tau setup / step_time_out setup \<ge> 0.1 then
       snd (rc_integrate signal_out signal_out
              (preamp_tau setup / step_time_out setup) (ntsteps_out setup) h)
     else h)"

text \<open>
  The two ways \<^verbatim>\<open>rc_integrate\<close> is called on buffers of \<open>n\<close> cells: in place
  (\<^verbatim>\<open>s_out == s_in\<close>), or with an output buffer that does not overlap the input.
\<close>

definition buffers_ok :: "int \<Rightarrow> int \<Rightarrow> int \<Rightarrow> bool" where
  "buffers_ok s_in s_out n = (s_in = s_out \<or> s_in + n \<le> s_out \<or> s_out + n \<le> s_in)"

text \<open>Sample \<open>j\<close> of the output array after the call.\<close>

definition rc_out :: "int \<Rightarrow> int \<Rightarrow> real \<Rightarrow> int \<Rightarrow> heap \<Rightarrow> nat \<Rightarrow> real" where
  "rc_out s_in s_out tau time_steps h j =
     snd (rc_integrate s_in s_out tau time_steps h) (s_out + int j)"

section \<open>calc\_signal.c: make\_signal\<close>

text \<open>
  \<^verbatim>\<open>fields.c\<close>, \<^verbatim>\<open>point.c\<close> and \<^verbatim>\<open>calc_signal.h\<close> are not among the sources. What
  \<^verbatim>\<open>calc_signal.c\<close> uses of them is a parameter of the model:
  \<^item> \<^verbatim>\<open>drift_velocity(pt, q, &v, setup)\<close> maps the point, the charge, the old content of
    \<^verbatim>\<open>v\<close> and the setup to its return value and the new content of \<^verbatim>\<open>v\<close>;
  \<^item> \<^verbatim>\<open>wpotential(pt, &wp, setup)\<close> likewise, for the weighting potential;
  \<^item> the constant \<^verbatim>\<open>WP_THRESH_ELECTRONS\<close>;
  \<^item> whether the \<^verbatim>\<open>malloc\<close> calls of a call of \<^verbatim>\<open>get_signal\<close> succeed: the first (index 0, for
    \<^verbatim>\<open>signal\<close>), the second (\<^verbatim>\<open>tmp\<close>) and the third (\<^verbatim>\<open>sum\<close>).

  Both field functions read the tables loaded into the setup and leave the setup as it is.
\<close>

record field_env =
  drift_velocity :: "point \<Rightarrow> real \<Rightarrow> vector \<Rightarrow> MJD_Siggen_Setup \<Rightarrow> int \<times> vector"
  wpotential :: "point \<Rightarrow> real \<Rightarrow> MJD_Siggen_Setup \<Rightarrow> int \<times> real"
  WP_THRESH_ELECTRONS :: real
  malloc_ok :: "nat \<Rightarrow> bool"

text \<open>
  Modelled from the spec: \<^verbatim>\<open>point.c\<close> is missing. The specification writes the position
  update as \<open>p + v\<cdot>\<Delta>t\<close> and the speed as \<open>|v|\<close>: componentwise sum, scaling by a scalar,
  and the Euclidean norm.
\<close>

definition vector_add :: "vector \<Rightarrow> vector \<Rightarrow> vector" where
  "vector_add a b = \<lparr>px = px a + px b, py = py a + py b, pz = pz a + pz b\<rparr>"

definition vector_scale :: "vector \<Rightarrow> real \<Rightarrow> vector" where
  "vector_scale a c = \<lparr>px = px a * c, py = py a * c, pz = pz a * c\<rparr>"

definition vector_length :: "vector \<Rightarrow> real" where
  "vector_length a = sqrt (px a * px a + py a * py a + pz a * pz a)"

definition HOLE_CHARGE :: real where
  "HOLE_CHARGE = 1.0"

definition ELECTRON_CHARGE :: real where
  "ELECTRON_CHARGE = - 1.0"

definition DIFFUSION_COEF_H :: "MJD_Siggen_Setup \<Rightarrow> real" where
  "DIFFUSION_COEF_H setup = 0.00029 * step_time_calc setup * 77.0 / xtal_temp setup"

definition DIFFUSION_COEF_E :: "MJD_Siggen_Setup \<Rightarrow> real" where
  "DIFFUSION_COEF_E setup = 0.00037 * step_time_calc setup * 77.0 / xtal_temp setup"

text \<open>
  The variables of \<^verbatim>\<open>make_signal\<close> with static storage duration (line 200): they keep
  their values from one call to the next, and start at zero.
\<close>

record make_signal_statics =
  m_wpot :: real
  m_wpot_old :: real
  m_dwpot :: real

text \<open>
  The variables that the drift loop (lines 216-265) reads and writes: the locals
  \<^verbatim>\<open>t\<close>, \<^verbatim>\<open>new_pt\<close>, \<^verbatim>\<open>v\<close>, \<^verbatim>\<open>dx\<close>, \<^verbatim>\<open>vel1\<close>, \<^verbatim>\<open>low_field\<close>, the statics \<^verbatim>\<open>wpot\<close> and
  \<^verbatim>\<open>wpot_old\<close>, the signal array and the setup.
\<close>

record drift_state =
  d_t :: nat
  d_new_pt :: point
  d_v :: vector
  d_dx :: vector
  d_vel1 :: real
  d_low_field :: int
  d_wpot :: real
  d_wpot_old :: real
  d_signal :: "nat \<Rightarrow> real"
  d_setup :: MJD_Siggen_Setup

text \<open>
  How one pass through the loop ends: with \<^verbatim>\<open>t++\<close> and the next pass, with the loop
  condition false, with \<^verbatim>\<open>break\<close>, or with \<^verbatim>\<open>return -1\<close>.
\<close>

datatype loop_step = Continue | Cond_False | Break | Return_m1

text \<open>Lines 217-221: the point is recorded in the drift path of the carrier.\<close>

definition record_path :: "real \<Rightarrow> drift_state \<Rightarrow> drift_state" where
  "record_path q s =
    (if q > 0
     then s\<lparr>d_setup := (d_setup s)\<lparr>dpath_h := (dpath_h (d_setup s))(d_t s := d_new_pt s)\<rparr>\<rparr>
     else s\<lparr>d_setup := (d_setup s)\<lparr>dpath_e := (dpath_e (d_setup s))(d_t s := d_new_pt s)\<rparr>\<rparr>)"

text \<open>
  Lines 222-235: for the carrier that is collected on the point contact, the velocity at
  step 1 and the size of the charge cloud are tracked.
\<close>

definition track_cloud :: "bool \<Rightarrow> real \<Rightarrow> drift_state \<Rightarrow> drift_state" where
  "track_cloud collect2pc diffusion_coeff s =
    (if collect2pc then
       (if d_t s = 1 then
          s\<lparr>d_vel1 := vector_length (d_v s),
            d_setup := (d_setup s)
              \<lparr>initial_vel := vector_length (d_v s),
               final_vel := vector_length (d_v s),
               final_charge_size_sq :=
                 charge_cloud_size (d_setup s) * charge_cloud_size (d_setup s)\<rparr>\<rparr>
        else if use_diffusion (d_setup s) \<noteq> 0 then
          let vel0 = d_vel1 s;
              vel1 = vector_length (d_v s)
          in s\<lparr>d_vel1 := vel1,
               d_setup := (d_setup s)
                 \<lparr>final_charge_size_sq :=
                    final_charge_size_sq (d_setup s) * (vel1 * vel1) / (vel0 * vel0)
                    + diffusion_coeff\<rparr>\<rparr>
        else s)
     else s)"

text \<open>Line 254: \<^verbatim>\<open>if (t > 0) signal[t] += q*(wpot - wpot_old);\<close>\<close>

definition induce :: "real \<Rightarrow> drift_state \<Rightarrow> drift_state" where
  "induce q s =
    (if d_t s > 0
     then s\<lparr>d_signal := (d_signal s)
              (d_t s := d_signal s (d_t s) + q * (d_wpot s - d_wpot_old s))\<rparr>
     else s)"

text \<open>Lines 260-263 and the \<^verbatim>\<open>t++\<close> of the loop header.\<close>

definition advance :: "drift_state \<Rightarrow> drift_state" where
  "advance s =
    (let dx = vector_scale (d_v s) (step_time_calc (d_setup s))
     in s\<lparr>d_wpot_old := d_wpot s, d_dx := dx, d_new_pt := vector_add (d_new_pt s) dx,
          d_t := d_t s + 1\<rparr>)"

text \<open>
  The loop condition \<^verbatim>\<open>drift_velocity(new_pt, q, &v, setup) >= 0\<close> followed by one pass
  through the body (lines 216-264).
\<close>

definition drift_step ::
  "field_env \<Rightarrow> real \<Rightarrow> bool \<Rightarrow> real \<Rightarrow> int \<Rightarrow> drift_state \<Rightarrow> loop_step \<times> drift_state" where
  "drift_step env q collect2pc diffusion_coeff ntsteps s0 =
    (case drift_velocity env (d_new_pt s0) q (d_v s0) (d_setup s0) of (rc, v) \<Rightarrow>
       if \<not> rc \<ge> 0 then (Cond_False, s0\<lparr>d_v := v\<rparr>)
       else
         let s1 = track_cloud collect2pc diffusion_coeff (record_path q (s0\<lparr>d_v := v\<rparr>))
         in if int (d_t s1) \<ge> ntsteps - 2 then
              (Break, if collect2pc \<or> d_wpot s1 > WP_THRESH_ELECTRONS env
                      then s1\<lparr>d_low_field := 1\<rparr> else s1)
            else
              (case wpotential env (d_new_pt s1) (d_wpot s1) (d_setup s1) of (rw, wp) \<Rightarrow>
                 if rw \<noteq> 0 then (Return_m1, s1\<lparr>d_wpot := wp\<rparr>)
                 else
                   let s2 = induce q (s1\<lparr>d_wpot := wp\<rparr>)
                   in if d_wpot s2 \<ge> 0.999 \<and> d_wpot s2 - d_wpot_old s2 < 0.0002
                      then (Break, s2\<lparr>d_low_field := 1\<rparr>)
                      else (Continue, advance s2)))"

text \<open>\<^verbatim>\<open>for (t = 0; drift_velocity(new_pt, q, &v, setup) >= 0; t++) { ... }\<close>\<close>

function drift_loop ::
  "field_env \<Rightarrow> real \<Rightarrow> bool \<Rightarrow> real \<Rightarrow> int \<Rightarrow> drift_state \<Rightarrow> loop_step \<times> drift_state" where
  "drift_loop env q collect2pc diffusion_coeff ntsteps s =
    (case drift_step env q collect2pc diffusion_coeff ntsteps s of
       (Continue, s') \<Rightarrow> drift_loop env q collect2pc diffusion_coeff ntsteps s'
     | (ex, s') \<Rightarrow> (ex, s'))"
  by pat_completeness auto
termination
proof (relation "measure (\<lambda>(env, q, collect2pc, diffusion_coeff, ntsteps, s).
                   nat (ntsteps - 2 - int (d_t s)))")
  show "wf (measure (\<lambda>(env, q, collect2pc, diffusion_coeff, ntsteps, s).
                   nat (ntsteps - 2 - int (d_t s))))"
    by simp
next
  fix env q collect2pc diffusion_coeff ntsteps s x1 s'
  assume "(x1, s') = drift_step env q collect2pc diffusion_coeff ntsteps s" "x1 = Continue"
  then have "int (d_t s) < ntsteps - 2 \<and> d_t s' = d_t s + 1"
    by (auto simp: drift_step_def record_path_def track_cloud_def induce_def advance_def
          Let_def split: prod.splits if_splits)
  then show "((env, q, collect2pc, diffusion_coeff, ntsteps, s'),
              (env, q, collect2pc, diffusion_coeff, ntsteps, s))
             \<in> measure (\<lambda>(env, q, collect2pc, diffusion_coeff, ntsteps, s).
                   nat (ntsteps - 2 - int (d_t s)))"
    by simp
qed

declare drift_loop.simps [simp del]

text \<open>
  The drift beyond the field grid (lines 280-285):
  \<^verbatim>\<open>for (n = 0; n+t < ntsteps; n++) { new_pt = vector_add(new_pt, dx);
  dpath[t+n] = new_pt; if (outside_detector(new_pt, setup)) break; }\<close>
\<close>

function edge_loop ::
  "real \<Rightarrow> int \<Rightarrow> nat \<Rightarrow> vector \<Rightarrow> nat \<Rightarrow> point \<Rightarrow> MJD_Siggen_Setup
   \<Rightarrow> nat \<times> point \<times> MJD_Siggen_Setup" where
  "edge_loop q ntsteps t dx n new_pt setup =
    (if int n + int t < ntsteps then
       let new_pt' = vector_add new_pt dx;
           setup' = (if q > 0
                     then setup\<lparr>dpath_h := (dpath_h setup)(t + n := new_pt')\<rparr>
                     else setup\<lparr>dpath_e := (dpath_e setup)(t + n := new_pt')\<rparr>)
       in if outside_detector new_pt' setup' \<noteq> 0 then (n, new_pt', setup')
          else edge_loop q ntsteps t dx (n + 1) new_pt' setup'
     else (n, new_pt, setup))"
  by pat_completeness auto
termination
  by (relation "measure (\<lambda>(q, ntsteps, t, dx, n, new_pt, setup). nat (ntsteps - int t - int n))")
    auto

declare edge_loop.simps [simp del]

text \<open>What a call of \<^verbatim>\<open>make_signal\<close> leaves: its return value, the signal array, the
  setup, and its static variables.\<close>

record signal_result =
  r_ret :: int
  r_signal :: "nat \<Rightarrow> real"
  r_setup :: MJD_Siggen_Setup
  r_statics :: make_signal_statics

definition zero_pt :: point where
  "zero_pt = \<lparr>px = 0, py = 0, pz = 0\<rparr>"

text \<open>
  Lines 299-316, for \<open>n\<close> tail steps after step \<open>t\<close>: the remaining weighting potential is
  spread over the \<open>n\<close> samples from index \<open>t\<close> on, holes record their final velocity, and
  the call succeeds.
\<close>

definition make_signal_tail ::
  "real \<Rightarrow> int \<Rightarrow> drift_state \<Rightarrow> MJD_Siggen_Setup \<Rightarrow> make_signal_statics \<Rightarrow> signal_result" where
  "make_signal_tail q n s setup st =
    (let t = d_t s;
         dwpot = (if d_wpot s > 0.3 then (1.0 - d_wpot s) / real_of_int n
                  else - d_wpot s / real_of_int n);
         signal = fold (\<lambda>i sig. sig(i + t := sig (i + t) + q * dwpot)) [0..<nat n] (d_signal s);
         setup = (if q > 0 then setup\<lparr>final_vel := vector_length (d_v s)\<rparr> else setup)
     in \<lparr>r_ret = 0, r_signal = signal, r_setup = setup, r_statics = st\<lparr>m_dwpot := dwpot\<rparr>\<rparr>)"

text \<open>
  \<^verbatim>\<open>make_signal(pt, signal, q, setup)\<close>. The locals \<^verbatim>\<open>v\<close> and \<^verbatim>\<open>dx\<close> are uninitialised in
  the source; the model starts them at zero, and the code reads neither before it has
  written it (\<^verbatim>\<open>v\<close> only through \<^verbatim>\<open>drift_velocity\<close>'s out-parameter).
\<close>

definition make_signal ::
  "field_env \<Rightarrow> point \<Rightarrow> (nat \<Rightarrow> real) \<Rightarrow> real \<Rightarrow> MJD_Siggen_Setup \<Rightarrow> make_signal_statics
   \<Rightarrow> signal_result" where
  "make_signal env pt signal q setup st =
    (let collect2pc = ((q > 0 \<and> impurity_z0 setup < 0) \<or> (q < 0 \<and> impurity_z0 setup > 0));
         diffusion_coeff = (if q > 0 then DIFFUSION_COEF_H setup else DIFFUSION_COEF_E setup);
         ntsteps = time_steps_calc setup;
         (ex, s) = drift_loop env q collect2pc diffusion_coeff ntsteps
                     \<lparr>d_t = 0, d_new_pt = pt, d_v = zero_pt, d_dx = zero_pt, d_vel1 = 0,
                      d_low_field = 0, d_wpot = m_wpot st, d_wpot_old = m_wpot_old st,
                      d_signal = signal, d_setup = setup\<rparr>;
         t = d_t s;
         st = st\<lparr>m_wpot := d_wpot s, m_wpot_old := d_wpot_old s\<rparr>
     in if ex = Return_m1 then
          \<lparr>r_ret = - 1, r_signal = d_signal s, r_setup = d_setup s, r_statics = st\<rparr>
        else if t = 0 then
          \<lparr>r_ret = - 1, r_signal = d_signal s, r_setup = d_setup s, r_statics = st\<rparr>
        else if d_low_field s \<noteq> 0 then
          \<lparr>r_ret = 0, r_signal = d_signal s,
           r_setup = (if q > 0 then (d_setup s)\<lparr>final_vel := vector_length (d_v s)\<rparr>
                      else d_setup s),
           r_statics = st\<rparr>
        else
          let (n, new_pt, setup) = edge_loop q ntsteps t (d_dx s) 0 (d_new_pt s) (d_setup s);
              n = (if n = 0 then 1 else int n)
          in if n + int t \<ge> ntsteps then
               (if q > 0 \<or> d_wpot s > WP_THRESH_ELECTRONS env then
                  \<lparr>r_ret = - 1, r_signal = d_signal s, r_setup = setup, r_statics = st\<rparr>
                else make_signal_tail q (ntsteps - int t) s setup st)
             else make_signal_tail q n s setup st)"

section \<open>calc\_signal.c: get\_signal\<close>

text \<open>
  The variables of \<^verbatim>\<open>get_signal\<close> with static storage duration (lines 96-97): three
  pointers to scratch arrays and the length they were allocated for. A pointer is
  modelled by the content of its array and by the number of cells allocated behind it;
  \<open>None\<close> is the NULL pointer.
\<close>

record get_signal_statics =
  g_signal :: "nat \<Rightarrow> real"
  g_sum :: "nat \<Rightarrow> real"
  g_tmp :: "nat \<Rightarrow> real"
  g_tsteps :: int
  g_signal_len :: "int option"
  g_sum_len :: "int option"
  g_tmp_len :: "int option"

text \<open>
  Everything a call can read or write besides its arguments: the caller's memory (where
  \<^verbatim>\<open>signal_out\<close> points), the setup behind the \<^verbatim>\<open>setup\<close> pointer, and the static variables
  of the two functions.
\<close>

record machine =
  mem :: heap
  cfg :: MJD_Siggen_Setup
  gs :: get_signal_statics
  ms :: make_signal_statics

text \<open>A process that has just started: static variables are zero, static pointers NULL.\<close>

definition fresh_statics :: "get_signal_statics \<times> make_signal_statics" where
  "fresh_statics =
    (\<lparr>g_signal = (\<lambda>_. 0), g_sum = (\<lambda>_. 0), g_tmp = (\<lambda>_. 0), g_tsteps = 0,
      g_signal_len = None, g_sum_len = None, g_tmp_len = None\<rparr>,
     \<lparr>m_wpot = 0, m_wpot_old = 0, m_dwpot = 0\<rparr>)"

text \<open>
  What ends a call with no return value, or leaves its behaviour undefined:
  \<^item> an integer division by zero (\<^verbatim>\<open>comp_f = time_steps_calc/ntsteps_out\<close> with
    \<open>ntsteps_out = 0\<close>);
  \<^item> an access through a static pointer that is NULL, or beyond the cells allocated
    behind it;
  \<^item> a conversion \<^verbatim>\<open>(int) x\<close> of a value that \<^verbatim>\<open>int\<close> cannot represent: a \<^verbatim>\<open>float\<close> out of
    range, an infinity or a NaN;
  \<^item> an overflow of the \<^verbatim>\<open>int\<close> arithmetic on the width of the charge cloud, which that
    conversion produces.
\<close>

datatype fault = Division_By_Zero | Invalid_Access | Cast_Undefined | Integer_Overflow

text \<open>
  Lines 103-110: \<^verbatim>\<open>tsteps\<close> is set first, then the three arrays are allocated in the order
  \<^verbatim>\<open>signal\<close>, \<^verbatim>\<open>tmp\<close>, \<^verbatim>\<open>sum\<close>; the first \<^verbatim>\<open>malloc\<close> that fails leaves its pointer NULL and the
  later ones are not called. The result is whether all three succeeded. A new array
  holds whatever the memory held; the model keeps the old content, and the code writes
  every cell \<open>j < tsteps\<close> of an array before it reads it.
\<close>

definition allocate :: "field_env \<Rightarrow> int \<Rightarrow> get_signal_statics \<Rightarrow> bool \<times> get_signal_statics" where
  "allocate env n g =
    (let g = g\<lparr>g_tsteps := n\<rparr>;
         g = g\<lparr>g_signal_len := (if malloc_ok env 0 then Some n else None)\<rparr>
     in if g_signal_len g = None then (False, g)
        else
          let g = g\<lparr>g_tmp_len := (if malloc_ok env 1 then Some n else None)\<rparr>
          in if g_tmp_len g = None then (False, g)
             else
               let g = g\<lparr>g_sum_len := (if malloc_ok env 2 then Some n else None)\<rparr>
               in (g_sum_len g \<noteq> None, g))"

text \<open>
  The cells \<open>j < n\<close> of a static array can be accessed: there is none (\<open>n \<le> 0\<close>), or the
  pointer is not NULL and at least \<open>n\<close> cells were allocated.
\<close>

definition in_bounds :: "int option \<Rightarrow> int \<Rightarrow> bool" where
  "in_bounds len n = (case len of None \<Rightarrow> n \<le> 0 | Some k \<Rightarrow> n \<le> 0 \<or> n \<le> k)"

text \<open>
  The conversion \<^verbatim>\<open>(int) x\<close> truncates towards zero, and is undefined when the truncated
  value is not a 32-bit \<^verbatim>\<open>int\<close>.
\<close>

definition c_int_cast :: "real \<Rightarrow> fault + int" where
  "c_int_cast a =
    (if - 2147483649 < a \<and> a < 2147483648
     then Inr (if a \<ge> 0 then \<lfloor>a\<rfloor> else \<lceil>a\<rceil>)
     else Inl Cast_Undefined)"

text \<open>
  Lines 141-151: the width of the charge cloud, in calculation steps. A zero divisor
  makes the quotient an infinity or a NaN, and the square root of a negative number is a
  NaN; the conversion of either is undefined. Line 142 converts before line 144 tests
  the velocity.
\<close>

definition cloud_dt :: "MJD_Siggen_Setup \<Rightarrow> fault + int" where
  "cloud_dt setup =
    (if step_time_calc setup * initial_vel setup = 0 then Inl Cast_Undefined
     else
       case c_int_cast (1.5 + charge_cloud_size setup /
                          (step_time_calc setup * initial_vel setup)) of
         Inl f \<Rightarrow> Inl f
       | Inr dt \<Rightarrow>
           let dt = (if initial_vel setup < 0.00001 then 0 else dt)
           in if use_diffusion setup \<noteq> 0 then
                (if step_time_calc setup * final_vel setup = 0 \<or>
                    final_charge_size_sq setup < 0
                 then Inl Cast_Undefined
                 else c_int_cast (1.5 + sqrt (final_charge_size_sq setup) /
                                    (step_time_calc setup * final_vel setup)))
              else Inr dt)"

text \<open>
  Lines 162-172, one pass for the shift \<open>k\<close>: the two inner loops over \<open>j\<close>. The state is
  the triple of the arrays \<^verbatim>\<open>signal\<close>, \<^verbatim>\<open>sum\<close>, \<^verbatim>\<open>tmp\<close>.
\<close>

definition conv_pass ::
  "int \<Rightarrow> int \<Rightarrow> real \<Rightarrow> (nat \<Rightarrow> real) \<times> (nat \<Rightarrow> real) \<times> (nat \<Rightarrow> real)
   \<Rightarrow> (nat \<Rightarrow> real) \<times> (nat \<Rightarrow> real) \<times> (nat \<Rightarrow> real)" where
  "conv_pass tsteps k w st =
    (let (signal, sum0, tmp0) = st;
         xx = real_of_int k / w;
         yy = exp (- xx * xx);
         (sum1, tmp1) =
           fold (\<lambda>j (su, tm).
                   let su = su(j := su j + yy);
                       tm = tm(j := tm j + signal (j + nat k) * yy);
                       su = su(j + nat k := su (j + nat k) + yy);
                       tm = tm(j + nat k := tm (j + nat k) + signal j * yy)
                   in (su, tm))
                [0..<nat (tsteps - k)] (sum0, tmp0);
         signal = (\<lambda>j. if int j < tsteps then tmp1 j / sum1 j else signal j)
     in (signal, sum1, tmp1))"

text \<open>\<^verbatim>\<open>l = dt/5; if (l < 1) l = 1;\<close>\<close>

definition conv_stride :: "int \<Rightarrow> int" where
  "conv_stride dt = (let l = dt sdiv 5 in if l < 1 then 1 else l)"

text \<open>The largest \<^verbatim>\<open>int\<close>.\<close>

definition INT_MAX :: int where
  "INT_MAX = 2147483647"

text \<open>
  \<^verbatim>\<open>for (k = l; k < 2*dt; k += l) { ... }\<close>, entered with \<open>2 * dt\<close> in range; the
  increment of \<open>k\<close> can overflow.
\<close>

function conv_loop ::
  "int \<Rightarrow> int \<Rightarrow> real \<Rightarrow> int \<Rightarrow> (nat \<Rightarrow> real) \<times> (nat \<Rightarrow> real) \<times> (nat \<Rightarrow> real)
   \<Rightarrow> fault + (nat \<Rightarrow> real) \<times> (nat \<Rightarrow> real) \<times> (nat \<Rightarrow> real)" where
  "conv_loop tsteps dt w k st =
    (if k < 2 * dt then
       (if k + conv_stride dt > INT_MAX then Inl Integer_Overflow
        else conv_loop tsteps dt w (k + conv_stride dt) (conv_pass tsteps k w st))
     else Inr st)"
  by pat_completeness auto
termination
  by (relation "measure (\<lambda>(tsteps, dt, w, k, st). nat (2 * dt - k))")
    (auto simp: conv_stride_def Let_def)

declare conv_loop.simps [simp del]

text \<open>
  Lines 134-175: the convolution with a Gaussian, when it applies. It is the one place
  where \<^verbatim>\<open>sum\<close> and \<^verbatim>\<open>tmp\<close> are accessed.
\<close>

definition convolve ::
  "MJD_Siggen_Setup \<Rightarrow> int \<Rightarrow> int option \<Rightarrow> int option
   \<Rightarrow> (nat \<Rightarrow> real) \<times> (nat \<Rightarrow> real) \<times> (nat \<Rightarrow> real)
   \<Rightarrow> fault + (nat \<Rightarrow> real) \<times> (nat \<Rightarrow> real) \<times> (nat \<Rightarrow> real)" where
  "convolve setup tsteps sum_len tmp_len st =
    (if charge_cloud_size setup > 0.001 \<or> use_diffusion setup \<noteq> 0 then
       case cloud_dt setup of
         Inl f \<Rightarrow> Inl f
       | Inr dt \<Rightarrow>
           if dt > 1 then
             if in_bounds sum_len tsteps \<and> in_bounds tmp_len tsteps then
               let w = real_of_int dt / 2.355;
                   (signal, sum0, tmp0) = st;
                   sum1 = (\<lambda>j. if int j < tsteps then 1.0 else sum0 j);
                   tmp1 = (\<lambda>j. if int j < tsteps then signal j else tmp0 j)
               in if 2 * dt > INT_MAX then Inl Integer_Overflow
                  else conv_loop tsteps dt w (conv_stride dt) (signal, sum1, tmp1)
             else Inl Invalid_Access
           else Inr st
     else Inr st)"

text \<open>
  Lines 179-182: the signal is compressed into the \<^verbatim>\<open>signal_out\<close> array. C's integer
  division truncates towards zero (\<open>sdiv\<close>).
\<close>

definition compress ::
  "MJD_Siggen_Setup \<Rightarrow> (nat \<Rightarrow> real) \<Rightarrow> int \<Rightarrow> heap \<Rightarrow> fault + heap" where
  "compress setup signal signal_out h =
    (if ntsteps_out setup = 0 then Inl Division_By_Zero
     else
       let comp_f = time_steps_calc setup sdiv ntsteps_out setup;
           h = fold (\<lambda>j h. h(signal_out + int j := 0)) [0..<nat (ntsteps_out setup)] h;
           h = fold (\<lambda>j h. h(signal_out + (int j sdiv comp_f) :=
                                h (signal_out + (int j sdiv comp_f))
                                + signal j / real_of_int comp_f))
                    [0..<nat (ntsteps_out setup * comp_f)] h
       in Inr h)"

text \<open>\<^verbatim>\<open>for (j = 0; j < tsteps; j++) signal[j] = 0.0;\<close>\<close>

definition zero_signal :: "int \<Rightarrow> (nat \<Rightarrow> real) \<Rightarrow> (nat \<Rightarrow> real)" where
  "zero_signal tsteps signal = (\<lambda>j. if int j < tsteps then 0.0 else signal j)"

text \<open>
  The two \<^verbatim>\<open>memset\<close> calls on the drift paths (lines 121-122), for \<open>tsteps \<ge> 0\<close>. The
  arrays behind the two pointers are the caller's, like the one behind \<^verbatim>\<open>signal_out\<close>.
\<close>

definition clear_paths :: "int \<Rightarrow> MJD_Siggen_Setup \<Rightarrow> MJD_Siggen_Setup" where
  "clear_paths tsteps setup =
    setup\<lparr>dpath_e := (\<lambda>j. if int j < tsteps then zero_pt else dpath_e setup j),
          dpath_h := (\<lambda>j. if int j < tsteps then zero_pt else dpath_h setup j)\<rparr>"

text \<open>
  Line 131: from the current signal to the charge signal, each step the sum of all
  previous steps.
\<close>

definition accumulate :: "int \<Rightarrow> (nat \<Rightarrow> real) \<Rightarrow> (nat \<Rightarrow> real)" where
  "accumulate tsteps signal =
    fold (\<lambda>j sig. sig(j := sig j + sig (j - 1))) [1..<nat tsteps] signal"

text \<open>
  Lines 103-110, as the call sees them: the arrays are allocated when \<^verbatim>\<open>tsteps\<close> differs
  from \<^verbatim>\<open>time_steps_calc\<close>. The result is whether the call goes on, and the statics.
\<close>

definition first_time :: "field_env \<Rightarrow> machine \<Rightarrow> bool \<times> get_signal_statics" where
  "first_time env m =
    (if g_tsteps (gs m) \<noteq> time_steps_calc (cfg m)
     then allocate env (time_steps_calc (cfg m)) (gs m)
     else (True, gs m))"

text \<open>
  \<^verbatim>\<open>get_signal(pt, signal_out, setup)\<close>; \<open>signal_out = None\<close> is the NULL pointer. After a
  failed allocation \<^verbatim>\<open>tsteps\<close> already has its new value, so the next call does not
  allocate again and line 113 writes through the pointer the failure left. With a
  negative \<^verbatim>\<open>tsteps\<close> the size \<^verbatim>\<open>tsteps*sizeof(point)\<close> that lines 121-122 pass to \<^verbatim>\<open>memset\<close>,
  an unsigned number, is beyond any array.
\<close>

definition get_signal ::
  "field_env \<Rightarrow> point \<Rightarrow> int option \<Rightarrow> machine \<Rightarrow> fault + int \<times> machine" where
  "get_signal env pt signal_out m =
    (let setup = cfg m;
         (ok, g) = first_time env m;
         tsteps = g_tsteps g
     in if \<not> ok then Inr (- 1, m\<lparr>gs := g\<rparr>)
     else if \<not> in_bounds (g_signal_len g) tsteps then Inl Invalid_Access
     else
       let signal = zero_signal tsteps (g_signal g)
       in if outside_detector pt setup \<noteq> 0 then
            Inr (- 1, m\<lparr>gs := g\<lparr>g_signal := signal\<rparr>\<rparr>)
          else if tsteps < 0 then Inl Invalid_Access
          else
            let setup = clear_paths tsteps setup;
                e = make_signal env pt signal ELECTRON_CHARGE setup (ms m);
                err = r_ret e;
                h = make_signal env pt (r_signal e) HOLE_CHARGE (r_setup e) (r_statics e);
                err = r_ret h;
                setup = r_setup h;
                signal = accumulate tsteps (r_signal h);
                ret = (if err \<noteq> 0 then - 1 else 1)
            in case signal_out of
                 None \<Rightarrow>
                   Inr (ret, m\<lparr>cfg := setup, gs := g\<lparr>g_signal := signal\<rparr>,
                                ms := r_statics h\<rparr>)
               | Some p \<Rightarrow>
                   (case convolve setup tsteps (g_sum_len g) (g_tmp_len g)
                           (signal, g_sum g, g_tmp g) of
                      Inl f \<Rightarrow> Inl f
                    | Inr (signal, sum1, tmp1) \<Rightarrow>
                        let g = g\<lparr>g_signal := signal, g_sum := sum1, g_tmp := tmp1\<rparr>
                        in case compress setup signal p (mem m) of
                             Inl f \<Rightarrow> Inl f
                           | Inr h1 \<Rightarrow>
                               Inr (ret, \<lparr>mem = rc_preamp setup p h1, cfg = setup, gs = g,
                                          ms = r_statics h\<rparr>)))"

text \<open>
  The setup \<open>b\<close> is the setup \<open>a\<close> up to the fields that the signal calculation writes:
  the two drift paths, the initial and final velocity and the final size of the charge
  cloud.
\<close>

definition config_kept :: "MJD_Siggen_Setup \<Rightarrow> MJD_Siggen_Setup \<Rightarrow> bool" where
  "config_kept a b =
    (b = a\<lparr>dpath_e := dpath_e b, dpath_h := dpath_h b, initial_vel := initial_vel b,
           final_vel := final_vel b, final_charge_size_sq := final_charge_size_sq b\<rparr>)"

section \<open>The relaxation solver (main of mjd\_fieldgen)\<close>

text \<open>
  The solver is the \<^verbatim>\<open>main\<close> function that follows the header in \<^verbatim>\<open>mjd_siggen.h\<close>. The
  model covers, for one grid size, the loops that set the permittivity and the boundary
  conditions, and the relaxation loop, for the potential (lines 425-604) and for the
  weighting potential (lines 804-986). The grid state that these loops start from (the
  initial guess, or the interpolation of the coarser grid) is arbitrary in the theorems.

  The dimensions of the crystal in grid lengths, the distances of the contact edge to the
  nearest pixel, and the constants of the relaxation, as \<^verbatim>\<open>main\<close> holds them in locals.
\<close>

record level =
  L :: int
  R :: int
  LC :: int
  RC :: int
  LT :: int
  RO :: int
  LO :: int
  WO :: int
  dRC :: real
  dLC :: real
  BV :: real
  N :: real
  MM :: real
  e_over_E :: real

text \<open>
  The arrays and scalars that the loops write. \<open>v g i z r\<close> is \<^verbatim>\<open>v[i][z][r]\<close>;
  \<open>undepleted g r z\<close> is \<^verbatim>\<open>undepleted[r][z]\<close>.
\<close>

record grid =
  v :: "nat \<Rightarrow> nat \<Rightarrow> nat \<Rightarrow> real"
  eps :: "nat \<Rightarrow> nat \<Rightarrow> real"
  eps_dr :: "nat \<Rightarrow> nat \<Rightarrow> real"
  eps_dz :: "nat \<Rightarrow> nat \<Rightarrow> real"
  vfraction :: "nat \<Rightarrow> nat \<Rightarrow> real"
  bulk :: "nat \<Rightarrow> nat \<Rightarrow> int"
  undepleted :: "nat \<Rightarrow> nat \<Rightarrow> char"
  fRC :: real
  fLC :: real
  bubble_volts :: real
  sum_dif :: real
  max_dif :: real
  pinched_sum1 :: real
  pinched_sum2 :: real

text \<open>\<^verbatim>\<open>a[i][j] = x\<close> on a two-dimensional array.\<close>

definition upd2 :: "(nat \<Rightarrow> nat \<Rightarrow> 'a) \<Rightarrow> nat \<Rightarrow> nat \<Rightarrow> 'a \<Rightarrow> (nat \<Rightarrow> nat \<Rightarrow> 'a)" where
  "upd2 a i j x = a(i := (a i)(j := x))"

text \<open>\<^verbatim>\<open>v[i][z][r] = x\<close>\<close>

definition set_v :: "nat \<Rightarrow> nat \<Rightarrow> nat \<Rightarrow> real \<Rightarrow> grid \<Rightarrow> grid" where
  "set_v i zz r x g = g\<lparr>v := (v g)(i := upd2 (v g i) zz r x)\<rparr>"

text \<open>
  \<^verbatim>\<open>for (z = 0; z < nz; z++) for (r = 0; r < nr; r++) body(z, r)\<close>: the pixels in the
  order of the two nested loops, and the loop over them. The second form is for a body
  that can leave \<^verbatim>\<open>main\<close> with an error.
\<close>

definition pixels :: "int \<Rightarrow> int \<Rightarrow> (nat \<times> nat) list" where
  "pixels nz nr = List.product [0..<nat nz] [0..<nat nr]"

definition for_pixels :: "int \<Rightarrow> int \<Rightarrow> (nat \<Rightarrow> nat \<Rightarrow> 's \<Rightarrow> 's) \<Rightarrow> 's \<Rightarrow> 's" where
  "for_pixels nz nr body s = fold (\<lambda>(zz, r). body zz r) (pixels nz nr) s"

fun for_each :: "('a \<Rightarrow> 's \<Rightarrow> 'e + 's) \<Rightarrow> 'a list \<Rightarrow> 's \<Rightarrow> 'e + 's" where
  "for_each body [] s = Inr s"
| "for_each body (a # as) s =
     (case body a s of Inl e \<Rightarrow> Inl e | Inr s' \<Rightarrow> for_each body as s')"

text \<open>
  The ways a relaxation loop leaves \<^verbatim>\<open>main\<close>: the \<^verbatim>\<open>return 1\<close> for an undefined \<^verbatim>\<open>bulk\<close>
  flag; a read at index -1 for the pixel \<open>(z, r)\<close> (\<^verbatim>\<open>v[old][z][r-1]\<close> at \<open>r = 0\<close> for an
  edge pixel, \<^verbatim>\<open>v[old][z-1][r]\<close> at \<open>z = 0\<close>); and the read of \<^verbatim>\<open>v[new][L-5][R-5]\<close> for
  the progress report of the weighting potential (lines 981-984) on a grid with
  \<open>L < 5\<close> or \<open>R < 5\<close>. C leaves the last two undefined.
\<close>

datatype solver_error =
  Undefined_Bulk int nat nat | Out_Of_Range nat nat | Report_Out_Of_Range int int

text \<open>Lines 319-324: the weights of the neighbours at \<open>r + 1\<close> and \<open>r - 1\<close>.\<close>

definition s1 :: "nat \<Rightarrow> real" where
  "s1 r = (if r = 0 then 2.0 else 1.0 + 0.5 / real r)"

definition s2 :: "nat \<Rightarrow> real" where
  "s2 r = (if r = 0 then 0.0 else 1.0 - 0.5 / real r)"

subsection \<open>Permittivity and boundary conditions\<close>

text \<open>Lines 431-434, the body of the permittivity loop.\<close>

definition permittivity_pixel :: "level \<Rightarrow> nat \<Rightarrow> nat \<Rightarrow> grid \<Rightarrow> grid" where
  "permittivity_pixel p zz r g =
    (let g = g\<lparr>eps := upd2 (eps g) zz r 16, eps_dz := upd2 (eps_dz g) zz r 16,
               eps_dr := upd2 (eps_dr g) zz r 16\<rparr>;
         g = (if int zz < LO p \<and> int r < RO p \<and> int r > RO p - WO p - 1
              then g\<lparr>eps := upd2 (eps g) zz r 1\<rparr> else g);
         g = (if r > 0
              then g\<lparr>eps_dr := upd2 (eps_dr g) zz (r - 1)
                                ((eps g zz (r - 1) + eps g zz r) / 2.0)\<rparr>
              else g);
         g = (if zz > 0
              then g\<lparr>eps_dz := upd2 (eps_dz g) (zz - 1) r
                                ((eps g (zz - 1) r + eps g zz r) / 2.0)\<rparr>
              else g)
     in g)"

text \<open>The conditions of lines 447-450 (the outside contact) and 455 (the point contact).\<close>

definition outer_contact :: "level \<Rightarrow> nat \<Rightarrow> nat \<Rightarrow> bool" where
  "outer_contact p zz r =
    (int zz = L p \<or> int r = R p \<or> int r \<ge> int zz + R p - LT p \<or> (zz = 0 \<and> int r \<ge> RO p))"

definition point_contact :: "level \<Rightarrow> nat \<Rightarrow> nat \<Rightarrow> bool" where
  "point_contact p zz r = (int zz \<le> LC p \<and> int r \<le> RC p)"

text \<open>\<^verbatim>\<open>bulk[z][r] = -1; v[0][z][r] = v[1][z][r] = x;\<close>: the pixel is fixed at \<open>x\<close>.\<close>

definition fix_pixel :: "real \<Rightarrow> nat \<Rightarrow> nat \<Rightarrow> grid \<Rightarrow> grid" where
  "fix_pixel x zz r g =
    set_v 1 zz r x (set_v 0 zz r x (g\<lparr>bulk := upd2 (bulk g) zz r (- 1)\<rparr>))"

text \<open>Lines 440-445: the volume fraction of the pixel, and the flag for normal bulk.\<close>

definition volume_pixel :: "level \<Rightarrow> nat \<Rightarrow> nat \<Rightarrow> grid \<Rightarrow> grid" where
  "volume_pixel p zz r g =
    (let g = g\<lparr>vfraction := upd2 (vfraction g) zz r 1.0\<rparr>;
         g = (if int zz < LO p \<and> int r < RO p \<and> int r > RO p - WO p - 1
              then g\<lparr>vfraction := upd2 (vfraction g) zz r 0.0\<rparr> else g)
     in g\<lparr>bulk := upd2 (bulk g) zz r 0\<rparr>)"

text \<open>
  Lines 458-475: a pixel of the point contact becomes an edge pixel when the contact ends
  short of it. Line 474 scales the volume fraction of a z-edge pixel by \<open>dRC\<close>, as the
  source does.
\<close>

definition contact_pixel :: "level \<Rightarrow> nat \<Rightarrow> nat \<Rightarrow> grid \<Rightarrow> grid" where
  "contact_pixel p zz r g =
    (let g = (if int r = RC p \<and> dRC p < - 0.05
              then g\<lparr>bulk := upd2 (bulk g) zz r 1, fRC := - 1.0 / dRC p,
                     vfraction := upd2 (vfraction g) zz r
                                    (vfraction g zz r * (- 2.0 * dRC p))\<rparr>
              else g)
     in if int zz = LC p \<and> dLC p < - 0.05
        then g\<lparr>bulk := upd2 (bulk g) zz r 2, fLC := - 1.0 / dLC p,
               vfraction := upd2 (vfraction g) zz r
                              (vfraction g zz r * (- 2.0 * dRC p))\<rparr>
        else g)"

text \<open>
  Lines 483-490: the pixel next to the point contact becomes an edge pixel when the
  contact reaches beyond the last pixel of the contact.
\<close>

definition next_to_contact :: "level \<Rightarrow> nat \<Rightarrow> nat \<Rightarrow> grid \<Rightarrow> grid" where
  "next_to_contact p zz r g =
    (if int zz \<le> LC p \<and> int r = RC p + 1 \<and> dRC p > 0.05 then
       g\<lparr>bulk := upd2 (bulk g) zz r 1, fRC := 1.0 / (1.0 - dRC p)\<rparr>
     else if int zz = LC p + 1 \<and> int r \<le> RC p \<and> dLC p > 0.05 then
       g\<lparr>bulk := upd2 (bulk g) zz r 2, fLC := 1.0 / (1.0 - dLC p)\<rparr>
     else g)"

text \<open>Lines 440-490, the body of the boundary loop of the potential.\<close>

definition boundary_pixel :: "level \<Rightarrow> nat \<Rightarrow> nat \<Rightarrow> grid \<Rightarrow> grid" where
  "boundary_pixel p zz r g =
    (let g = volume_pixel p zz r g
     in if outer_contact p zz r then fix_pixel (BV p) zz r g
        else if point_contact p zz r then contact_pixel p zz r (fix_pixel 0 zz r g)
        else next_to_contact p zz r g)"

text \<open>Lines 429-492: both loops, over the pixels \<open>z \<le> L\<close>, \<open>r \<le> R\<close>.\<close>

definition set_boundaries :: "level \<Rightarrow> grid \<Rightarrow> grid" where
  "set_boundaries p g =
    for_pixels (L p + 1) (R p + 1) (boundary_pixel p)
      (for_pixels (L p + 1) (R p + 1) (permittivity_pixel p) g)"

subsection \<open>One sweep of the relaxation for the potential\<close>

text \<open>
  The acc over the neighbours of a pixel: \<^verbatim>\<open>v_sum\<close>, \<^verbatim>\<open>eps_sum\<close> and the minimum \<^verbatim>\<open>min\<close> of
  the neighbour values, for a normal bulk pixel (lines 513-531), a pixel on the
  interpolated radial edge of the point contact (lines 537-549) and one on its z edge
  (lines 554-572).
\<close>

definition kernel_bulk :: "nat \<Rightarrow> nat \<Rightarrow> nat \<Rightarrow> grid \<Rightarrow> real \<times> real \<times> real" where
  "kernel_bulk old zz r g =
    (let vo = v g old;
         v_sum = vo (zz + 1) r * eps_dz g zz r + vo zz (r + 1) * eps_dr g zz r * s1 r;
         eps_sum = eps_dz g zz r + eps_dr g zz r * s1 r;
         mn = min (vo (zz + 1) r) (vo zz (r + 1));
         (v_sum, eps_sum, mn) =
           (if zz > 0
            then (v_sum + vo (zz - 1) r * eps_dz g (zz - 1) r, eps_sum + eps_dz g (zz - 1) r,
                  min mn (vo (zz - 1) r))
            else (v_sum + vo (zz + 1) r * eps_dz g zz r, eps_sum + eps_dz g zz r, mn));
         (v_sum, eps_sum, mn) =
           (if r > 0
            then (v_sum + vo zz (r - 1) * eps_dr g zz (r - 1) * s2 r,
                  eps_sum + eps_dr g zz (r - 1) * s2 r, min mn (vo zz (r - 1)))
            else (v_sum + vo zz (r + 1) * eps_dr g zz r * s1 r,
                  eps_sum + eps_dr g zz r * s1 r, mn))
     in (v_sum, eps_sum, mn))"

definition kernel_edge_r :: "nat \<Rightarrow> nat \<Rightarrow> nat \<Rightarrow> grid \<Rightarrow> real \<times> real \<times> real" where
  "kernel_edge_r old zz r g =
    (let vo = v g old;
         v_sum = vo (zz + 1) r * eps_dz g zz r + vo zz (r + 1) * eps_dr g zz r * s1 r +
                 vo zz (r - 1) * eps_dr g zz (r - 1) * s2 r * fRC g;
         eps_sum = eps_dz g zz r + eps_dr g zz r * s1 r + eps_dr g zz (r - 1) * s2 r * fRC g;
         mn = min (vo (zz + 1) r) (vo zz (r + 1));
         mn = min mn (vo zz (r - 1));
         (v_sum, eps_sum, mn) =
           (if zz > 0
            then (v_sum + vo (zz - 1) r * eps_dz g (zz - 1) r, eps_sum + eps_dz g (zz - 1) r,
                  min mn (vo (zz - 1) r))
            else (v_sum + vo (zz + 1) r * eps_dz g zz r, eps_sum + eps_dz g zz r, mn))
     in (v_sum, eps_sum, mn))"

definition kernel_edge_z :: "level \<Rightarrow> nat \<Rightarrow> nat \<Rightarrow> nat \<Rightarrow> grid \<Rightarrow> real \<times> real \<times> real" where
  "kernel_edge_z p old zz r g =
    (let vo = v g old;
         v_sum = vo (zz + 1) r * eps_dz g zz r + vo zz (r + 1) * eps_dr g zz r * s1 r +
                 vo (zz - 1) r * eps_dz g (zz - 1) r * fLC g;
         eps_sum = eps_dz g zz r + eps_dr g zz r * s1 r + eps_dz g (zz - 1) r * fLC g;
         mn = min (vo (zz + 1) r) (vo zz (r + 1));
         mn = min mn (vo (zz - 1) r);
         (v_sum, eps_sum, mn) =
           (if r > 0
            then (v_sum + vo zz (r - 1) * eps_dr g zz (r - 1) * s2 r,
                  eps_sum + eps_dr g zz (r - 1) * s2 r, min mn (vo zz (r - 1)))
            else (v_sum + vo zz (r + 1) * eps_dr g zz r * s1 r,
                  eps_sum + eps_dr g zz r * s1 r, mn));
         (v_sum, eps_sum, mn) =
           (if int zz = LC p \<and> bulk g (zz - 1) r = 1
            then (v_sum + vo zz (r - 1) * eps_dr g zz (r - 1) * s2 r * (fRC g - 1.0),
                  eps_sum + eps_dr g zz (r - 1) * s2 r * (fRC g - 1.0),
                  min mn (vo zz (r - 1)))
            else (v_sum, eps_sum, mn))
     in (v_sum, eps_sum, mn))"

text \<open>
  The values that the minimum of lines 515-570 runs over: those of the old plane at the
  neighbours \<open>z + 1\<close> and \<open>r + 1\<close>, at \<open>z - 1\<close> when \<open>z > 0\<close>, and at \<open>r - 1\<close> when \<open>r > 0\<close>
  (on the axes the sums mirror the neighbour on the other side, and the minimum has
  nothing to add).
\<close>

definition neighbour_values :: "nat \<Rightarrow> nat \<Rightarrow> nat \<Rightarrow> grid \<Rightarrow> real list" where
  "neighbour_values old zz r g =
    [v g old (zz + 1) r, v g old zz (r + 1)] @
    (if zz > 0 then [v g old (zz - 1) r] else []) @
    (if r > 0 then [v g old zz (r - 1)] else [])"

text \<open>
  The dispatch on the flag of a pixel that is not fixed (lines 512-578). An edge flag at
  \<open>r = 0\<close> (or \<open>z = 0\<close>) makes the source read index -1.
\<close>

definition kernel ::
  "level \<Rightarrow> nat \<Rightarrow> nat \<Rightarrow> nat \<Rightarrow> grid \<Rightarrow> solver_error + real \<times> real \<times> real" where
  "kernel p old zz r g =
    (if bulk g zz r = 0 then Inr (kernel_bulk old zz r g)
     else if bulk g zz r = 1 then
       (if r = 0 then Inl (Out_Of_Range zz r) else Inr (kernel_edge_r old zz r g))
     else if bulk g zz r = 2 then
       (if zz = 0 \<or> (int zz = LC p \<and> bulk g (zz - 1) r = 1 \<and> r = 0)
        then Inl (Out_Of_Range zz r) else Inr (kernel_edge_z p old zz r g))
     else Inl (Undefined_Bulk (bulk g zz r) zz r))"

text \<open>
  Lines 585-592: the new value \<open>v_new\<close> of a pixel is clamped. The result is the value
  stored, the new \<^verbatim>\<open>bubble_volts\<close>, and whether the pixel counts as undepleted.
\<close>

definition clamp :: "real \<Rightarrow> real \<Rightarrow> real \<Rightarrow> real \<times> real \<times> bool" where
  "clamp v_new mn bv =
    (if v_new \<le> 0.0 then (0.0, bv, True)
     else if v_new < mn then
       (let bv = (if bv = 0.0 then mn + 0.1 else bv) in (bv, bv, True))
     else (v_new, bv, False))"

text \<open>Lines 581-597: the update of a pixel from the acc of its neighbours.\<close>

definition poisson_update ::
  "level \<Rightarrow> nat \<Rightarrow> nat \<Rightarrow> nat \<Rightarrow> nat \<Rightarrow> real \<times> real \<times> real \<Rightarrow> grid \<Rightarrow> grid" where
  "poisson_update p old new zz r acc g =
    (let (v_sum, eps_sum, mn) = acc;
         mean = v_sum / eps_sum;
         v_new = mean + vfraction g zz r * (N p + MM p * real zz) * e_over_E p;
         g = (if vfraction g zz r > 0.45
              then g\<lparr>undepleted := upd2 (undepleted g) r zz (CHR ''.'')\<rparr> else g);
         (v_new, bv, und) = clamp v_new mn (bubble_volts g);
         g = set_v new zz r v_new (g\<lparr>bubble_volts := bv\<rparr>);
         g = (if und \<and> vfraction g zz r > 0.45
              then g\<lparr>undepleted := upd2 (undepleted g) r zz (CHR ''*'')\<rparr> else g);
         dif = v g old zz r - v g new zz r;
         dif = (if dif < 0.0 then - dif else dif);
         g = g\<lparr>sum_dif := sum_dif g + dif\<rparr>
     in if max_dif g < dif then g\<lparr>max_dif := dif\<rparr> else g)"

text \<open>Lines 510-598, the body of the sweep; a fixed pixel is skipped.\<close>

definition poisson_pixel ::
  "level \<Rightarrow> nat \<Rightarrow> nat \<Rightarrow> nat \<times> nat \<Rightarrow> grid \<Rightarrow> solver_error + grid" where
  "poisson_pixel p old new pix g =
    (let (zz, r) = pix
     in if bulk g zz r < 0 then Inr g
        else case kernel p old zz r g of
               Inl e \<Rightarrow> Inl e
             | Inr acc \<Rightarrow> Inr (poisson_update p old new zz r acc g))"

text \<open>Lines 508-599: one sweep over the pixels \<open>z < L\<close>, \<open>r < R\<close>.\<close>

definition poisson_sweep :: "level \<Rightarrow> nat \<Rightarrow> nat \<Rightarrow> grid \<Rightarrow> solver_error + grid" where
  "poisson_sweep p old new g = for_each (poisson_pixel p old new) (pixels (L p) (R p)) g"

text \<open>
  Lines 496-604: the relaxation loop, \<open>n\<close> iterations at most. The result is the final
  roles of the two planes and the grid.
\<close>

fun poisson_relax ::
  "level \<Rightarrow> nat \<Rightarrow> nat \<Rightarrow> nat \<Rightarrow> grid \<Rightarrow> solver_error + nat \<times> nat \<times> grid" where
  "poisson_relax p 0 old new g = Inr (old, new, g)"
| "poisson_relax p (Suc n) old new g =
    (let (old, new) = (if old = 0 then (1, 0) else (0, 1));
         g = g\<lparr>sum_dif := 0.0, max_dif := 0.0, bubble_volts := 0.0\<rparr>
     in case poisson_sweep p old new g of
          Inl e \<Rightarrow> Inl e
        | Inr g \<Rightarrow>
            if max_dif g < 0.000000001 then Inr (old, new, g)
            else poisson_relax p n old new g)"

subsection \<open>The weighting potential\<close>

text \<open>Lines 833-842: the edge pixels of the point contact, for the weighting potential.\<close>

definition wp_contact_pixel :: "level \<Rightarrow> nat \<Rightarrow> nat \<Rightarrow> grid \<Rightarrow> grid" where
  "wp_contact_pixel p zz r g =
    (let g = (if int r = RC p \<and> dRC p < - 0.05
              then g\<lparr>bulk := upd2 (bulk g) zz r 1, fRC := - 1.0 / dRC p\<rparr>
              else g)
     in if int zz = LC p \<and> dLC p < - 0.05
        then g\<lparr>bulk := upd2 (bulk g) zz r 2, fLC := - 1.0 / dLC p\<rparr>
        else g)"

text \<open>
  Lines 855-863: where the detector is not fully depleted, an undepleted pixel is treated
  like the point contact, and a pixel of a pinch-off bubble gets the flag 3.
  \<open>fully_depleted\<close> and \<open>gridfact\<close> are the locals of \<^verbatim>\<open>main\<close>: the outcome of the potential
  calculation, and the ratio of the current grid step to the final one. The map
  \<^verbatim>\<open>undepleted\<close> is the one that the potential calculation left.
\<close>

definition undepleted_pixel :: "bool \<Rightarrow> int \<Rightarrow> nat \<Rightarrow> nat \<Rightarrow> grid \<Rightarrow> grid" where
  "undepleted_pixel fully_depleted gridfact zz r g =
    (if \<not> fully_depleted then
       (if undepleted g (nat (int r * gridfact)) (nat (int zz * gridfact)) = CHR ''*'' then
          fix_pixel 1.0 zz r g
        else if undepleted g (nat (int r * gridfact)) (nat (int zz * gridfact)) = CHR ''B''
        then g\<lparr>bulk := upd2 (bulk g) zz r 3\<rparr>
        else g)
     else g)"

text \<open>Lines 819-863, the body of the boundary loop of the weighting potential.\<close>

definition wp_boundary_pixel :: "level \<Rightarrow> bool \<Rightarrow> int \<Rightarrow> nat \<Rightarrow> nat \<Rightarrow> grid \<Rightarrow> grid" where
  "wp_boundary_pixel p fully_depleted gridfact zz r g =
    (let g = g\<lparr>bulk := upd2 (bulk g) zz r 0\<rparr>;
         g = (if outer_contact p zz r then fix_pixel 0.0 zz r g
              else if point_contact p zz r then wp_contact_pixel p zz r (fix_pixel 1.0 zz r g)
              else next_to_contact p zz r g)
     in undepleted_pixel fully_depleted gridfact zz r g)"

text \<open>Lines 808-865: the permittivity loop and the boundary loop.\<close>

definition wp_set_boundaries :: "level \<Rightarrow> bool \<Rightarrow> int \<Rightarrow> grid \<Rightarrow> grid" where
  "wp_set_boundaries p fully_depleted gridfact g =
    for_pixels (L p + 1) (R p + 1) (wp_boundary_pixel p fully_depleted gridfact)
      (for_pixels (L p + 1) (R p + 1) (permittivity_pixel p) g)"

text \<open>
  Lines 929-947: a pinched-off pixel adds its bulk neighbours to the two sums that all
  pinched-off pixels share.
\<close>

definition pinched :: "nat \<Rightarrow> nat \<Rightarrow> nat \<Rightarrow> grid \<Rightarrow> grid" where
  "pinched old zz r g =
    (let vo = v g old;
         g = (if bulk g (zz + 1) r = 0
              then g\<lparr>pinched_sum1 := pinched_sum1 g + vo (zz + 1) r * eps_dz g zz r,
                     pinched_sum2 := pinched_sum2 g + eps_dz g zz r\<rparr>
              else g);
         g = (if bulk g zz (r + 1) = 0
              then g\<lparr>pinched_sum1 := pinched_sum1 g + vo zz (r + 1) * eps_dr g zz r * s1 r,
                     pinched_sum2 := pinched_sum2 g + eps_dr g zz r * s1 r\<rparr>
              else g);
         g = (if zz > 0 \<and> bulk g (zz - 1) r = 0
              then g\<lparr>pinched_sum1 := pinched_sum1 g + vo (zz - 1) r * eps_dz g (zz - 1) r,
                     pinched_sum2 := pinched_sum2 g + eps_dz g (zz - 1) r\<rparr>
              else g);
         g = (if r > 0 \<and> bulk g zz (r - 1) = 0
              then g\<lparr>pinched_sum1 := pinched_sum1 g + vo zz (r - 1) * eps_dr g zz (r - 1) * s2 r,
                     pinched_sum2 := pinched_sum2 g + eps_dr g zz (r - 1) * s2 r\<rparr>
              else g)
     in g)"

text \<open>
  Lines 955-960 and 970-974: a pixel takes the value \<open>mean\<close>, and the change enters the
  convergence sums.
\<close>

definition wp_store :: "nat \<Rightarrow> nat \<Rightarrow> nat \<Rightarrow> nat \<Rightarrow> real \<Rightarrow> grid \<Rightarrow> grid" where
  "wp_store old new zz r mean g =
    (let g = set_v new zz r mean g;
         dif = v g old zz r - v g new zz r;
         dif = (if dif < 0.0 then - dif else dif);
         g = g\<lparr>sum_dif := sum_dif g + dif\<rparr>
     in if max_dif g < dif then g\<lparr>max_dif := dif\<rparr> else g)"

text \<open>
  Lines 882-961, the body of the sweep. The sums over the neighbours are those of the
  potential (lines 885-927 repeat lines 513-572 without the minimum).
\<close>

definition wp_pixel ::
  "level \<Rightarrow> nat \<Rightarrow> nat \<Rightarrow> nat \<times> nat \<Rightarrow> grid \<Rightarrow> solver_error + grid" where
  "wp_pixel p old new pix g =
    (let (zz, r) = pix
     in if bulk g zz r < 0 then Inr g
        else if bulk g zz r = 3 then Inr (pinched old zz r g)
        else case kernel p old zz r g of
               Inl e \<Rightarrow> Inl e
             | Inr (v_sum, eps_sum, mn) \<Rightarrow> Inr (wp_store old new zz r (v_sum / eps_sum) g))"

text \<open>Lines 965-978: the pinched-off pixels all take the mean of the shared sums.\<close>

definition wp_pinched_pixel :: "nat \<Rightarrow> nat \<Rightarrow> real \<Rightarrow> nat \<Rightarrow> nat \<Rightarrow> grid \<Rightarrow> grid" where
  "wp_pinched_pixel old new mean zz r g =
    (if bulk g zz r = 3 then wp_store old new zz r mean g else g)"

text \<open>Lines 880-978: one sweep.\<close>

definition wp_sweep :: "level \<Rightarrow> nat \<Rightarrow> nat \<Rightarrow> grid \<Rightarrow> solver_error + grid" where
  "wp_sweep p old new g =
    (case for_each (wp_pixel p old new) (pixels (L p) (R p)) g of
       Inl e \<Rightarrow> Inl e
     | Inr g \<Rightarrow>
         if pinched_sum2 g > 0.1 then
           Inr (for_pixels (L p) (R p)
                  (wp_pinched_pixel old new (pinched_sum1 g / pinched_sum2 g)) g)
         else Inr g)"

text \<open>Line 981: the iterations for which the progress is reported.\<close>

definition reported :: "nat \<Rightarrow> bool" where
  "reported iter = (iter < 10 \<or> (iter < 600 \<and> iter mod 100 = 0) \<or> iter mod 1000 = 0)"

text \<open>
  Lines 868-986: the relaxation loop, \<open>n\<close> iterations at most, the first of them with
  number \<open>iter\<close>. The report of lines 981-984 reads \<^verbatim>\<open>v[new][L/2][R/2]\<close> and
  \<^verbatim>\<open>v[new][L-5][R-5]\<close>; the second read is outside the array when \<open>L < 5\<close> or \<open>R < 5\<close>.
\<close>

fun wp_relax ::
  "level \<Rightarrow> nat \<Rightarrow> nat \<Rightarrow> nat \<Rightarrow> nat \<Rightarrow> grid \<Rightarrow> solver_error + nat \<times> nat \<times> grid" where
  "wp_relax p 0 iter old new g = Inr (old, new, g)"
| "wp_relax p (Suc n) iter old new g =
    (let (old, new) = (if old = 0 then (1, 0) else (0, 1));
         g = g\<lparr>sum_dif := 0.0, max_dif := 0.0, pinched_sum1 := 0.0, pinched_sum2 := 0.0\<rparr>
     in case wp_sweep p old new g of
          Inl e \<Rightarrow> Inl e
        | Inr g \<Rightarrow>
            if reported iter \<and> (L p < 5 \<or> R p < 5)
            then Inl (Report_Out_Of_Range (L p - 5) (R p - 5))
            else if max_dif g < 0.0000000001 then Inr (old, new, g)
            else wp_relax p n (Suc iter) old new g)"

subsection \<open>What the electrodes hold\<close>

text \<open>
  A pixel of the point contact that the boundary loop turns into an edge pixel (lines
  461-475 and 834-842): the contact ends more than 0.05 grid steps short of the pixel.
\<close>

definition contact_edge :: "level \<Rightarrow> nat \<Rightarrow> nat \<Rightarrow> bool" where
  "contact_edge p zz r =
    ((int r = RC p \<and> dRC p < - 0.05) \<or> (int zz = LC p \<and> dLC p < - 0.05))"

text \<open>
  The pixel \<open>(z, r)\<close> is marked, in the map of undepleted pixels, as undepleted or as part
  of a pinch-off bubble (lines 856-862).
\<close>

definition marked :: "bool \<Rightarrow> int \<Rightarrow> grid \<Rightarrow> nat \<Rightarrow> nat \<Rightarrow> bool" where
  "marked fully_depleted gridfact g zz r =
    (\<not> fully_depleted \<and>
     (undepleted g (nat (int r * gridfact)) (nat (int zz * gridfact)) = CHR ''*'' \<or>
      undepleted g (nat (int r * gridfact)) (nat (int zz * gridfact)) = CHR ''B''))"

text \<open>
  The pixel \<open>(z, r)\<close> is marked as part of a pinch-off bubble (lines 860-861).
\<close>

definition pinch_marked :: "bool \<Rightarrow> int \<Rightarrow> grid \<Rightarrow> nat \<Rightarrow> nat \<Rightarrow> bool" where
  "pinch_marked fully_depleted gridfact g zz r =
    (\<not> fully_depleted \<and>
     undepleted g (nat (int r * gridfact)) (nat (int zz * gridfact)) = CHR ''B'')"

text \<open>
  The electrodes hold their values in both planes: \<open>hv\<close> on the outside contact, \<open>pc\<close> on
  the pixels of the point contact that are neither on the outside contact nor edge
  pixels; the pixels for which \<open>skip_hv\<close> (on the outside contact) or \<open>skip_pc\<close> (on the
  point contact) holds are left out.
\<close>

definition electrodes_hold ::
  "level \<Rightarrow> real \<Rightarrow> real \<Rightarrow> (nat \<Rightarrow> nat \<Rightarrow> bool) \<Rightarrow> (nat \<Rightarrow> nat \<Rightarrow> bool) \<Rightarrow> grid \<Rightarrow> bool" where
  "electrodes_hold p hv pc skip_hv skip_pc g =
    (\<forall>zz r. int zz \<le> L p \<and> int r \<le> R p \<longrightarrow>
       (outer_contact p zz r \<and> \<not> skip_hv zz r \<longrightarrow> v g 0 zz r = hv \<and> v g 1 zz r = hv) \<and>
       (point_contact p zz r \<and> \<not> outer_contact p zz r \<and> \<not> contact_edge p zz r \<and>
        \<not> skip_pc zz r \<longrightarrow>
          v g 0 zz r = pc \<and> v g 1 zz r = pc))"

text \<open>
  What the boundary loop leaves at the pixel \<open>(z, r)\<close>: a pixel of the outside contact is
  fixed at \<open>hv\<close>, a pixel of the point contact that is neither on the outside contact nor
  an edge pixel is fixed at \<open>pc\<close>, a fixed pixel holds one of the two values, and a pixel
  that is not fixed is not on the outside contact.
\<close>

definition pixel_set :: "level \<Rightarrow> real \<Rightarrow> real \<Rightarrow> nat \<Rightarrow> nat \<Rightarrow> grid \<Rightarrow> bool" where
  "pixel_set p hv pc zz r g =
    ((outer_contact p zz r \<longrightarrow>
        bulk g zz r = - 1 \<and> v g 0 zz r = hv \<and> v g 1 zz r = hv) \<and>
     (point_contact p zz r \<and> \<not> outer_contact p zz r \<and> \<not> contact_edge p zz r \<longrightarrow>
        bulk g zz r = - 1 \<and> v g 0 zz r = pc \<and> v g 1 zz r = pc) \<and>
     bulk g zz r \<in> {- 1, 0, 1, 2} \<and>
     (bulk g zz r = 1 \<longrightarrow> int r = RC p \<or> int r = RC p + 1) \<and>
     (bulk g zz r = 2 \<longrightarrow> int zz = LC p \<or> int zz = LC p + 1) \<and>
     (bulk g zz r \<ge> 0 \<longrightarrow> \<not> outer_contact p zz r) \<and>
     (bulk g zz r < 0 \<longrightarrow>
        (v g 0 zz r = hv \<and> v g 1 zz r = hv) \<or> (v g 0 zz r = pc \<and> v g 1 zz r = pc)))"

text \<open>
  The flags that the boundary loops leave, and where the two edge flags can stand.
\<close>

definition tag_set :: "level \<Rightarrow> int set \<Rightarrow> nat \<Rightarrow> nat \<Rightarrow> grid \<Rightarrow> bool" where
  "tag_set p allowed zz r g =
    (bulk g zz r \<in> allowed \<and>
     (bulk g zz r = 1 \<longrightarrow> (int r = RC p \<and> dRC p < - 0.05) \<or> int r = RC p + 1) \<and>
     (bulk g zz r = 2 \<longrightarrow> (int zz = LC p \<and> dLC p < - 0.05) \<or> int zz = LC p + 1))"

text \<open>
  The point contact has a non-negative extent in grid lengths, and where it ends short of
  its last pixel, that pixel is not at index 0. This holds whenever \<open>RC\<close> and \<open>dRC\<close> come
  from a non-negative contact radius (\<open>RC\<close> its rounding, \<open>dRC\<close> the rest), and likewise for
  the length.
\<close>

definition geometry_ok :: "level \<Rightarrow> bool" where
  "geometry_ok p =
    (0 \<le> RC p \<and> 0 \<le> LC p \<and> (if dRC p < - 0.05 then 1 \<le> RC p else True) \<and>
     (if dLC p < - 0.05 then 1 \<le> LC p else True))"

text \<open>
  Every flag in the grid is one of \<open>allowed\<close>, and no edge flag stands where the sweep
  would read index -1.
\<close>

definition tags_ok :: "level \<Rightarrow> int set \<Rightarrow> grid \<Rightarrow> bool" where
  "tags_ok p allowed g =
    (\<forall>zz r. int zz \<le> L p \<and> int r \<le> R p \<longrightarrow>
       bulk g zz r \<in> allowed \<and> (bulk g zz r = 1 \<longrightarrow> 0 < r) \<and> (bulk g zz r = 2 \<longrightarrow> 0 < zz))"

text \<open>Lines 415-423: the initial guess of the potential on the coarsest grid.\<close>

definition initial_guess :: "level \<Rightarrow> grid \<Rightarrow> grid" where
  "initial_guess p g =
    for_pixels (L p) (R p)
      (\<lambda>zz r g. let a = BV p * real zz / real_of_int (L p)
                in set_v 0 zz r (a + (BV p - a) * real r / real_of_int (R p)) g) g"

section \<open>Concrete configurations\<close>

text \<open>
  A small crystal used to evaluate the functions at concrete inputs: 10 mm long and
  10 mm in radius, no bullet, no taper, p-type, four calculation steps of 1 ns.
\<close>

definition example_setup :: MJD_Siggen_Setup where
  "example_setup =
    \<lparr>top_bullet_radius = 0, pc_length = 1, pc_radius = 1, taper_length = 0,
     impurity_z0 = -1, xtal_temp = 77, preamp_tau = 30, time_steps_calc = 4,
     step_time_calc = 1, step_time_out = 10, charge_cloud_size = 0, use_diffusion = 0,
     ntsteps_out = 4, rmax = 10, zmax = 10,
     dpath_e = (\<lambda>_. \<lparr>px = 0, py = 0, pz = 0\<rparr>),
     dpath_h = (\<lambda>_. \<lparr>px = 0, py = 0, pz = 0\<rparr>),
     initial_vel = 0, final_vel = 0, final_charge_size_sq = 0\<rparr>"

text \<open>A store whose first three cells hold 1, 2, 3 and every other cell 0.\<close>

definition ramp :: heap where
  "ramp = (\<lambda>a. if a = 0 then 1 else if a = 1 then 2 else if a = 2 then 3 else 0)"

text \<open>
  A field that is defined for \<open>0 \<le> z \<le> 5\<close>: holes drift towards the contact at
  \<open>z = 0\<close> with 1 mm/ns, electrons away from it; outside, \<^verbatim>\<open>drift_velocity\<close> fails and
  leaves \<^verbatim>\<open>v\<close> as it is. The weighting potential is 1 up to \<open>z = 1\<close>, 0.9995 up to
  \<open>z = 2\<close> and 0.5 beyond.
\<close>

definition example_env :: field_env where
  "example_env =
    \<lparr>drift_velocity = (\<lambda>pt q v setup.
        if 0 \<le> pz pt \<and> pz pt \<le> 5 then (0, \<lparr>px = 0, py = 0, pz = - q\<rparr>) else (- 1, v)),
     wpotential = (\<lambda>pt wp setup.
        (0, if pz pt \<le> 1 then 1 else if pz pt \<le> 2 then 0.9995 else 0.5)),
     WP_THRESH_ELECTRONS = 0.0001,
     malloc_ok = (\<lambda>_. True)\<rparr>"

definition fresh_machine :: machine where
  "fresh_machine =
    \<lparr>mem = (\<lambda>_. 0), cfg = example_setup, gs = fst fresh_statics, ms = snd fresh_statics\<rparr>"

text \<open>Three start points on the axis: inside the field at two heights, and above it.\<close>

definition start5 :: point where
  "start5 = \<lparr>px = 0, py = 0, pz = 5\<rparr>"

definition start2 :: point where
  "start2 = \<lparr>px = 0, py = 0, pz = 2\<rparr>"

definition start6 :: point where
  "start6 = \<lparr>px = 0, py = 0, pz = 6\<rparr>"

text \<open>
  A grid of 2 by 2 steps with a bias of 136 V and no space charge. The point contact is
  one pixel long (\<open>LC = 0\<close>) and ends a tenth of a grid step short of the pixel \<open>r = 1\<close>.
\<close>

definition tiny_level :: level where
  "tiny_level = \<lparr>L = 2, R = 2, LC = 0, RC = 1, LT = 0, RO = 2, LO = 0, WO = 0,
     dRC = - 0.1, dLC = 0, BV = 136, N = 0, MM = 0, e_over_E = 0.7072\<rparr>"

text \<open>A grid state with every array zero and an empty map of undepleted pixels.\<close>

definition zero_grid :: grid where
  "zero_grid = \<lparr>v = (\<lambda>_ _ _. 0), eps = (\<lambda>_ _. 0), eps_dr = (\<lambda>_ _. 0), eps_dz = (\<lambda>_ _. 0),
     vfraction = (\<lambda>_ _. 0), bulk = (\<lambda>_ _. 0), undepleted = (\<lambda>_ _. CHR '' ''),
     fRC = 0, fLC = 0, bubble_volts = 0, sum_dif = 0, max_dif = 0,
     pinched_sum1 = 0, pinched_sum2 = 0\<rparr>"

text \<open>
  The same crystal on a grid of 5 by 5 steps, and a map of undepleted pixels with the one
  mark \<^verbatim>\<open>'*'\<close> at the pixel \<open>(z, r) = (0, 0)\<close>.
\<close>

definition wide_level :: level where
  "wide_level = \<lparr>L = 5, R = 5, LC = 0, RC = 1, LT = 0, RO = 5, LO = 0, WO = 0,
     dRC = - 0.1, dLC = 0, BV = 136, N = 0, MM = 0, e_over_E = 0.7072\<rparr>"

definition starred_grid :: grid where
  "starred_grid =
    zero_grid\<lparr>undepleted := (\<lambda>r z. if r = 0 \<and> z = 0 then CHR ''*'' else CHR '' '')\<rparr>"

text \<open>
  A grid of 2 by 2 steps with a bias of 4 V and a net impurity concentration of
  \<open>-3\<close> (in units of 1e10 per cubic centimetre); the point contact is the one pixel \<open>(0, 0)\<close>. And the grid of
  \<open>tiny_level\<close> with that bias and an impurity concentration of \<open>-10\<close>.
\<close>

definition bubble_level :: level where
  "bubble_level = \<lparr>L = 2, R = 2, LC = 0, RC = 0, LT = 0, RO = 2, LO = 0, WO = 0,
     dRC = 0, dLC = 0, BV = 4, N = - 3, MM = 0, e_over_E = 0.7072\<rparr>"

definition charged_level :: level where
  "charged_level = tiny_level\<lparr>BV := 4, N := - 10\<rparr>"

section \<open>Properties of the geometry test\<close>

lemma bullet_sqrt_arg_pos:
  assumes "zz < zm" "zz > zm - br"
  shows "0 < SQ br - SQ (zz - (zm - br))"
proof -
  have a: "0 < zz - (zm - br)" using assms by simp
  have b: "zz - (zm - br) < br" using assms by simp
  have "(zz - (zm - br)) * (zz - (zm - br)) < br * br"
    using a b by (intro mult_strict_mono) auto
  then show ?thesis by (simp add: SQ_def)
qed

lemma inside_code_eq_spec:
  "pc_radius setup > 0 \<Longrightarrow> inside_code r zz setup = inside_spec r zz setup"
  by (simp add: inside_code_def inside_spec_def)

text \<open>
  C4, as the code has it. \<^verbatim>\<open>outside_detector_cyl\<close> returns 0 exactly on the points that
  satisfy the predicate of the specification with the cavity test guarded by
  \<open>pc_radius > 0\<close>, and 1 on all others; \<^verbatim>\<open>outside_detector\<close> is the cylindrical test at
  \<open>r = sqrt (x\<^sup>2 + y\<^sup>2)\<close>, whatever the angle.
\<close>

theorem outside_detector_cyl_inside_code:
  "(outside_detector_cyl pt setup = 0 \<longleftrightarrow> inside_code (cr pt) (cz pt) setup) \<and>
   (outside_detector_cyl pt setup \<noteq> 0 \<longleftrightarrow> outside_detector_cyl pt setup = 1) \<and>
   outside_detector p setup =
     outside_detector_cyl \<lparr>cr = sqrt ((px p)\<^sup>2 + (py p)\<^sup>2), cphi = phi, cz = pz p\<rparr> setup"
proof -
  have "outside_detector_cyl pt setup = 0 \<longleftrightarrow> inside_code (cr pt) (cz pt) setup"
    unfolding outside_detector_cyl_def inside_code_def Let_def SQ_def power2_eq_square
    by auto
  moreover have "outside_detector_cyl pt setup \<noteq> 0 \<longleftrightarrow> outside_detector_cyl pt setup = 1"
    unfolding outside_detector_cyl_def Let_def by simp
  moreover have "outside_detector p setup =
     outside_detector_cyl \<lparr>cr = sqrt ((px p)\<^sup>2 + (py p)\<^sup>2), cphi = phi, cz = pz p\<rparr> setup"
    unfolding outside_detector_cyl_def outside_detector_def Let_def SQ_def power2_eq_square
    by simp
  ultimately show ?thesis by blast
qed

text \<open>
  C4 as the specification states it fails: with a point contact of radius zero, the
  point \<open>r = 0\<close>, \<open>z = 1/2\<close> below the contact length is inside for the code, and in the
  cavity for the unguarded predicate.
\<close>

theorem outside_detector_cyl_spec_counterexample:
  "outside_detector_cyl \<lparr>cr = 0, cphi = 0, cz = 1/2\<rparr> (example_setup\<lparr>pc_radius := 0\<rparr>) = 0 \<and>
   \<not> inside_spec 0 (1/2) (example_setup\<lparr>pc_radius := 0\<rparr>)"
  by (simp add: outside_detector_cyl_def inside_spec_def example_setup_def SQ_def)

section \<open>Properties of rc\_integrate\<close>

lemma rc_shift_frame:
  "(\<And>k. 1 \<le> k \<Longrightarrow> k \<le> j \<Longrightarrow> a \<noteq> s_out + k) \<Longrightarrow> rc_shift s_in s_out j h a = h a"
proof (induction s_in s_out j h rule: rc_shift.induct)
  case (1 s_in s_out j h)
  show ?case
  proof (cases "j > 0")
    case True
    let ?h = "h(s_out + j := h (s_in + (j - 1)))"
    have unf: "rc_shift s_in s_out j h = rc_shift s_in s_out (j - 1) ?h"
      using True by (subst rc_shift.simps) simp
    have "rc_shift s_in s_out (j - 1) ?h a = ?h a"
    proof (rule "1.IH"[OF True])
      fix k :: int assume "1 \<le> k" "k \<le> j - 1"
      then show "a \<noteq> s_out + k" using "1.prems"[of k] by simp
    qed
    moreover have "a \<noteq> s_out + j" using "1.prems"[of j] True by simp
    ultimately show ?thesis unfolding unf by simp
  next
    case False
    then show ?thesis by (subst rc_shift.simps) simp
  qed
qed

lemma rc_shift_val:
  "buffers_ok s_in s_out (j + 1) \<Longrightarrow> 1 \<le> k \<Longrightarrow> k \<le> j \<Longrightarrow>
   rc_shift s_in s_out j h (s_out + k) = h (s_in + (k - 1))"
proof (induction s_in s_out j h rule: rc_shift.induct)
  case (1 s_in s_out j h)
  let ?h = "h(s_out + j := h (s_in + (j - 1)))"
  have pos: "j > 0" using "1.prems"(2,3) by linarith
  have unf: "rc_shift s_in s_out j h = rc_shift s_in s_out (j - 1) ?h"
    using pos by (subst rc_shift.simps) simp
  show ?case
  proof (cases "k = j")
    case True
    have "rc_shift s_in s_out (j - 1) ?h (s_out + j) = ?h (s_out + j)"
    proof (rule rc_shift_frame)
      fix k' :: int assume "1 \<le> k'" "k' \<le> j - 1"
      then show "s_out + j \<noteq> s_out + k'" by linarith
    qed
    then show ?thesis unfolding unf True by simp
  next
    case False
    have ok: "buffers_ok s_in s_out (j - 1 + 1)"
      using "1.prems"(1) pos unfolding buffers_ok_def by linarith
    have kj: "k \<le> j - 1" using False "1.prems"(3) by linarith
    have ih: "rc_shift s_in s_out (j - 1) ?h (s_out + k) = ?h (s_in + (k - 1))"
      by (rule "1.IH"[OF pos ok "1.prems"(2) kj])
    have ne: "s_in + (k - 1) \<noteq> s_out + j"
      using "1.prems"(1,2) kj unfolding buffers_ok_def by linarith
    show ?thesis unfolding unf ih using ne by simp
  qed
qed

lemma rc_filter_frame:
  "(\<And>k. j \<le> k \<Longrightarrow> k < n \<Longrightarrow> a \<noteq> s_out + k) \<Longrightarrow>
   rc_filter s_in s_out tau n j s_in_old h a = h a"
proof (induction s_in s_out tau n j s_in_old h rule: rc_filter.induct)
  case (1 s_in s_out tau n j s_in_old h)
  show ?case
  proof (cases "j < n")
    case True
    let ?s = "h (s_out + (j - 1)) + (s_in_old - h (s_out + (j - 1))) / tau"
    let ?h = "h(s_out + j := ?s)"
    have unf: "rc_filter s_in s_out tau n j s_in_old h
               = rc_filter s_in s_out tau n (j + 1) (h (s_in + j)) ?h"
      using True by (subst rc_filter.simps) (simp add: Let_def)
    have "rc_filter s_in s_out tau n (j + 1) (h (s_in + j)) ?h a = ?h a"
    proof (rule "1.IH"[OF True refl refl])
      fix k :: int assume "j + 1 \<le> k" "k < n"
      then show "a \<noteq> s_out + k" using "1.prems"[of k] by simp
    qed
    moreover have "a \<noteq> s_out + j" using "1.prems"[of j] True by simp
    ultimately show ?thesis unfolding unf by simp
  next
    case False
    then show ?thesis by (subst rc_filter.simps) simp
  qed
qed

lemma rc_filter_val:
  assumes "buffers_ok s_in s_out n" "1 \<le> j"
    and "\<And>k. j \<le> int k \<Longrightarrow> int k < n \<Longrightarrow> h (s_in + int k) = xs k"
    and "s_in_old = xs (nat (j - 1))"
    and "\<And>k. int k < j \<Longrightarrow> int k < n \<Longrightarrow> h (s_out + int k) = rc_recurrence tau xs k"
    and "int k < n"
  shows "rc_filter s_in s_out tau n j s_in_old h (s_out + int k) = rc_recurrence tau xs k"
  using assms
proof (induction s_in s_out tau n j s_in_old h rule: rc_filter.induct)
  case (1 s_in s_out tau n j s_in_old h)
  show ?case
  proof (cases "j < n")
    case True
    let ?s = "h (s_out + (j - 1)) + (s_in_old - h (s_out + (j - 1))) / tau"
    let ?h = "h(s_out + j := ?s)"
    have unf: "rc_filter s_in s_out tau n j s_in_old h
               = rc_filter s_in s_out tau n (j + 1) (h (s_in + j)) ?h"
      using True by (subst rc_filter.simps) (simp add: Let_def)
    have j1: "int (nat (j - 1)) = j - 1" and jS: "nat j = Suc (nat (j - 1))"
      and jj: "int (nat j) = j"
      using "1.prems"(2) by linarith+
    have prev: "h (s_out + (j - 1)) = rc_recurrence tau xs (nat (j - 1))"
      using "1.prems"(5)[of "nat (j - 1)"] True unfolding j1 by linarith
    have s_eq: "?s = rc_recurrence tau xs (nat j)"
      unfolding prev "1.prems"(4) jS by simp
    have "rc_filter s_in s_out tau n (j + 1) (h (s_in + j)) ?h (s_out + int k)
          = rc_recurrence tau xs k"
    proof (rule "1.IH"[OF True refl refl])
      show "buffers_ok s_in s_out n" by fact
      show "1 \<le> j + 1" using "1.prems"(2) by linarith
      show "?h (s_in + int k') = xs k'" if "j + 1 \<le> int k'" "int k' < n" for k'
      proof -
        have "s_in + int k' \<noteq> s_out + j"
          using that "1.prems"(1,2) True unfolding buffers_ok_def by linarith
        moreover have "h (s_in + int k') = xs k'"
          using "1.prems"(3)[of k'] that by linarith
        ultimately show ?thesis by simp
      qed
      show "h (s_in + j) = xs (nat (j + 1 - 1))"
        using "1.prems"(3)[of "nat j"] True unfolding jj by simp
      show "?h (s_out + int k') = rc_recurrence tau xs k'" if "int k' < j + 1" "int k' < n" for k'
      proof (cases "int k' = j")
        case True
        then have "k' = nat j" by linarith
        then show ?thesis using s_eq True by simp
      next
        case False
        then have "int k' < j" using that by linarith
        then have "h (s_out + int k') = rc_recurrence tau xs k'"
          using "1.prems"(5)[of k'] that by simp
        then show ?thesis using False by simp
      qed
      show "int k < n" by fact
    qed
    then show ?thesis unfolding unf .
  next
    case False
    then have "int k < j" using "1.prems"(6) by linarith
    then have "h (s_out + int k) = rc_recurrence tau xs k"
      using "1.prems"(5)[of k] "1.prems"(6) by simp
    then show ?thesis using False by (subst rc_filter.simps) simp
  qed
qed

lemma rc_integrate_filter:
  assumes "\<not> tau < 1" "buffers_ok s_in s_out n" "int k < n"
  shows "snd (rc_integrate s_in s_out tau n h) (s_out + int k)
         = rc_recurrence tau (\<lambda>i. h (s_in + int i)) k"
proof -
  have "rc_filter s_in s_out tau n 1 (h (s_in + 0)) (h(s_out + 0 := 0)) (s_out + int k)
        = rc_recurrence tau (\<lambda>i. h (s_in + int i)) k"
  proof (rule rc_filter_val[OF assms(2)])
    show "(1::int) \<le> 1" by simp
    show "(h(s_out + 0 := 0)) (s_in + int k') = h (s_in + int k')"
      if "1 \<le> int k'" "int k' < n" for k'
    proof -
      have "s_in + int k' \<noteq> s_out + 0"
        using that assms(2) unfolding buffers_ok_def by linarith
      then show ?thesis by simp
    qed
    show "h (s_in + 0) = h (s_in + int (nat (1 - 1)))" by simp
    show "(h(s_out + 0 := 0)) (s_out + int k') = rc_recurrence tau (\<lambda>i. h (s_in + int i)) k'"
      if "int k' < 1" for k'
    proof -
      have "k' = 0" using that by linarith
      then show ?thesis by simp
    qed
    show "int k < n" by fact
  qed
  then show ?thesis using assms(1) by (simp add: rc_integrate_def Let_def)
qed

lemma rc_integrate_shift:
  assumes "tau < 1" "buffers_ok s_in s_out n" "int k < n"
  shows "snd (rc_integrate s_in s_out tau n h) (s_out + int k)
         = (if k = 0 then 0 else h (s_in + int (k - 1)))"
proof (cases "k = 0")
  case True
  then show ?thesis using assms(1) by (simp add: rc_integrate_def)
next
  case False
  have ok: "buffers_ok s_in s_out (n - 1 + 1)" using assms(2) by simp
  have k1: "1 \<le> int k" "int k \<le> n - 1" using False assms(3) by linarith+
  have e: "int (k - 1) = int k - 1" using False by linarith
  have "rc_shift s_in s_out (n - 1) h (s_out + int k) = h (s_in + int (k - 1))"
    unfolding e by (rule rc_shift_val[OF ok k1])
  moreover have "s_out + int k \<noteq> s_out + 0" using False by simp
  ultimately show ?thesis using assms(1) False
    unfolding rc_integrate_def by (simp del: of_nat_diff)
qed

lemma rc_out_zero: "rc_out s_in s_out tau n h 0 = 0"
proof (cases "tau < 1")
  case True
  then show ?thesis by (simp add: rc_out_def rc_integrate_def)
next
  case False
  have "rc_filter s_in s_out tau n 1 (h (s_in + 0)) (h(s_out + 0 := 0)) (s_out + 0)
        = (h(s_out + 0 := 0)) (s_out + 0)"
  proof (rule rc_filter_frame)
    fix k :: int assume "1 \<le> k"
    then show "s_out + 0 \<noteq> s_out + k" by linarith
  qed
  then show ?thesis using False by (simp add: rc_out_def rc_integrate_def Let_def)
qed

lemma rc_recurrence_unit_step:
  "tau \<noteq> 0 \<Longrightarrow> (\<And>i. i < k \<Longrightarrow> xs i = 1) \<Longrightarrow> rc_recurrence tau xs k = 1 - (1 - 1 / tau) ^ k"
proof (induction k)
  case 0
  then show ?case by simp
next
  case (Suc k)
  have r: "rc_recurrence tau xs k = 1 - (1 - 1 / tau) ^ k"
    using Suc.IH[OF Suc.prems(1)] Suc.prems(2) by simp
  have x: "xs k = 1" using Suc.prems(2) by simp
  show ?case
    unfolding rc_recurrence.simps r x
    by (simp add: algebra_simps diff_divide_distrib)
qed

text \<open>
  C7, as the code has it. With \<open>tau = 30 ns / 10 ns\<close> and an input of ones, the recurrence
  is the forward difference \<open>y[k] = 1 - (2/3)^k\<close>: one third at sample 1 and five ninths
  at sample 2, not the sampled exponential \<open>1 - exp (- k / 3)\<close>.
\<close>

theorem rc_unit_step_response:
  assumes "buffers_ok s_in s_out n"
    and "\<And>i. int i < n \<Longrightarrow> h (s_in + int i) = 1"
    and "int k < n"
  shows "rc_out s_in s_out (30 / 10) n h k = 1 - (2 / 3) ^ k"
proof -
  have nt: "\<not> (30 / 10 :: real) < 1" by simp
  have "rc_out s_in s_out (30 / 10) n h k
        = rc_recurrence (30 / 10) (\<lambda>i. h (s_in + int i)) k"
    unfolding rc_out_def by (rule rc_integrate_filter[OF nt assms(1,3)])
  also have "\<dots> = 1 - (1 - 1 / (30 / 10)) ^ k"
  proof (rule rc_recurrence_unit_step)
    show "(30 / 10 :: real) \<noteq> 0" by simp
    fix i assume "i < k"
    then have "int i < n" using assms(3) by linarith
    then show "h (s_in + int i) = 1" by (rule assms(2))
  qed
  finally show ?thesis by simp
qed

theorem rc_unit_step_response_witness:
  "buffers_ok 0 0 4 \<and> rc_out 0 0 (30 / 10) 4 (\<lambda>_. 1) 1 = 1 / 3 \<and>
   rc_out 0 0 (30 / 10) 4 (\<lambda>_. 1) 2 = 5 / 9"
proof -
  have ok: "buffers_ok 0 0 4" by (simp add: buffers_ok_def)
  have "rc_out 0 0 (30 / 10) 4 (\<lambda>_. 1) 1 = 1 - (2 / 3) ^ 1"
    by (rule rc_unit_step_response[OF ok]) simp_all
  moreover have "rc_out 0 0 (30 / 10) 4 (\<lambda>_. 1) 2 = 1 - (2 / 3) ^ 2"
    by (rule rc_unit_step_response[OF ok]) simp_all
  ultimately show ?thesis using ok by (simp add: power2_eq_square)
qed

text \<open>
  C7 as stated fails: samples 1 and 2 are not 0.283 and 0.487 to three decimals, neither
  for a step that is 1 from sample 0 on, nor for one that is 0 at sample 0 and 1 after.
\<close>

theorem rc_unit_step_counterexample:
  "\<bar>rc_out 0 0 (30 / 10) 4 (\<lambda>_. 1) 1 - 283 / 1000\<bar> > 1 / 1000 \<and>
   \<bar>rc_out 0 0 (30 / 10) 4 (\<lambda>_. 1) 2 - 487 / 1000\<bar> > 1 / 1000 \<and>
   \<bar>rc_out 0 0 (30 / 10) 4 (\<lambda>a. if a = 0 then 0 else 1) 1 - 283 / 1000\<bar> > 1 / 1000 \<and>
   \<bar>rc_out 0 0 (30 / 10) 4 (\<lambda>a. if a = 0 then 0 else 1) 2 - 487 / 1000\<bar> > 1 / 1000"
  by (simp add: rc_out_def rc_integrate_def rc_filter.simps Let_def)

text \<open>
  C8. Called in place, \<^verbatim>\<open>rc_integrate\<close> leaves in the buffer exactly the array that a call
  with a separate output buffer, not overlapping the input, leaves in that buffer; both
  calls return the same status. This holds for every \<open>tau\<close>, so for both branches.
\<close>

theorem rc_integrate_alias_safe:
  assumes "s_in + n \<le> s_out \<or> s_out + n \<le> s_in"
  shows "read_array (snd (rc_integrate s_in s_in tau n h)) s_in n =
         read_array (snd (rc_integrate s_in s_out tau n h)) s_out n \<and>
         fst (rc_integrate s_in s_in tau n h) = fst (rc_integrate s_in s_out tau n h)"
proof -
  have a: "buffers_ok s_in s_in n" by (simp add: buffers_ok_def)
  have b: "buffers_ok s_in s_out n" using assms by (simp add: buffers_ok_def)
  have "snd (rc_integrate s_in s_in tau n h) (s_in + int k) =
        snd (rc_integrate s_in s_out tau n h) (s_out + int k)" if "int k < n" for k
  proof (cases "tau < 1")
    case True
    show ?thesis
      unfolding rc_integrate_shift[OF True a that] rc_integrate_shift[OF True b that] ..
  next
    case False
    show ?thesis
      unfolding rc_integrate_filter[OF False a that] rc_integrate_filter[OF False b that] ..
  qed
  then have "read_array (snd (rc_integrate s_in s_in tau n h)) s_in n =
         read_array (snd (rc_integrate s_in s_out tau n h)) s_out n"
    unfolding read_array_def by (intro map_cong refl) auto
  moreover have "fst (rc_integrate s_in s_in tau n h) = fst (rc_integrate s_in s_out tau n h)"
    by (simp add: rc_integrate_def Let_def)
  ultimately show ?thesis by simp
qed

theorem rc_integrate_alias_safe_witness:
  "(0 + 3 \<le> (10::int) \<or> (10::int) + 3 \<le> 0) \<and>
   read_array (snd (rc_integrate 0 0 2 3 ramp)) 0 3 = [0, 1 / 2, 5 / 4] \<and>
   read_array (snd (rc_integrate 0 10 2 3 ramp)) 10 3 = [0, 1 / 2, 5 / 4] \<and>
   read_array (snd (rc_integrate 0 0 (1 / 2) 3 ramp)) 0 3 = [0, 1, 2] \<and>
   read_array (snd (rc_integrate 0 10 (1 / 2) 3 ramp)) 10 3 = [0, 1, 2]"
proof -
  have d: "0 + 3 \<le> (10::int) \<or> (10::int) + 3 \<le> 0" by simp
  have "read_array (snd (rc_integrate 0 0 2 3 ramp)) 0 3 = [0, 1 / 2, 5 / 4]"
    by (simp add: read_array_def rc_integrate_def rc_filter.simps Let_def upt_rec ramp_def)
  moreover have "read_array (snd (rc_integrate 0 0 (1 / 2) 3 ramp)) 0 3 = [0, 1, 2]"
    by (simp add: read_array_def rc_integrate_def rc_shift.simps Let_def upt_rec ramp_def)
  ultimately show ?thesis
    using rc_integrate_alias_safe[OF d, of 2 ramp] rc_integrate_alias_safe[OF d, of "1 / 2" ramp]
    by simp
qed

section \<open>Properties of make\_signal and get\_signal\<close>

lemma record_path_fields [simp]:
  "d_signal (record_path q s) = d_signal s" "d_t (record_path q s) = d_t s"
  "d_wpot (record_path q s) = d_wpot s" "d_wpot_old (record_path q s) = d_wpot_old s"
  "d_low_field (record_path q s) = d_low_field s"
  by (simp_all add: record_path_def)

lemma track_cloud_fields [simp]:
  "d_signal (track_cloud c d s) = d_signal s" "d_t (track_cloud c d s) = d_t s"
  "d_wpot (track_cloud c d s) = d_wpot s" "d_wpot_old (track_cloud c d s) = d_wpot_old s"
  "d_low_field (track_cloud c d s) = d_low_field s"
  by (simp_all add: track_cloud_def Let_def)

lemma induce_fields [simp]:
  "d_signal (induce q s) 0 = d_signal s 0" "d_t (induce q s) = d_t s"
  "d_wpot (induce q s) = d_wpot s" "d_wpot_old (induce q s) = d_wpot_old s"
  "d_low_field (induce q s) = d_low_field s"
  by (simp_all add: induce_def)

lemma advance_fields [simp]:
  "d_signal (advance s) = d_signal s" "d_t (advance s) = d_t s + 1"
  "d_wpot (advance s) = d_wpot s" "d_low_field (advance s) = d_low_field s"
  by (simp_all add: advance_def Let_def)

lemma drift_step_signal0:
  "d_signal (snd (drift_step env q c d n s)) 0 = d_signal s 0"
  by (simp add: drift_step_def Let_def split: prod.splits)

lemma drift_loop_signal0:
  "d_signal (snd (drift_loop env q c d n s)) 0 = d_signal s 0"
proof (induction env q c d n s rule: drift_loop.induct)
  case (1 env q c d n s)
  obtain ex s' where st: "drift_step env q c d n s = (ex, s')" by (cases "drift_step env q c d n s")
  have s': "d_signal s' 0 = d_signal s 0"
    using drift_step_signal0[of env q c d n s] st by simp
  show ?case
  proof (cases "ex = Continue")
    case True
    have "drift_loop env q c d n s = drift_loop env q c d n s'"
      using st True by (subst drift_loop.simps) simp
    moreover have "d_signal (snd (drift_loop env q c d n s')) 0 = d_signal s' 0"
      using "1.IH"[OF st[symmetric]] True by simp
    ultimately show ?thesis using s' by simp
  next
    case False
    then have "drift_loop env q c d n s = (ex, s')"
      using st by (subst drift_loop.simps) (cases ex; simp)
    then show ?thesis using s' by simp
  qed
qed

lemma smear_index0:
  "0 < t \<Longrightarrow> fold (\<lambda>i sig. sig(i + t := sig (i + t) + a)) xs sig (0::nat) = sig 0"
  by (induction xs arbitrary: sig) auto

lemma make_signal_tail_signal0:
  "0 < d_t s \<Longrightarrow> r_signal (make_signal_tail q n s setup st) 0 = d_signal s 0"
  by (simp add: make_signal_tail_def Let_def smear_index0)

lemma make_signal_signal0:
  "r_signal (make_signal env pt signal q setup st) 0 = signal 0"
proof -
  let ?c = "(q > 0 \<and> impurity_z0 setup < 0) \<or> (q < 0 \<and> impurity_z0 setup > 0)"
  let ?d = "if q > 0 then DIFFUSION_COEF_H setup else DIFFUSION_COEF_E setup"
  let ?s0 = "\<lparr>d_t = 0, d_new_pt = pt, d_v = zero_pt, d_dx = zero_pt, d_vel1 = 0,
               d_low_field = 0, d_wpot = m_wpot st, d_wpot_old = m_wpot_old st,
               d_signal = signal, d_setup = setup\<rparr>"
  obtain ex s where l: "drift_loop env q ?c ?d (time_steps_calc setup) ?s0 = (ex, s)"
    by (cases "drift_loop env q ?c ?d (time_steps_calc setup) ?s0")
  have s: "d_signal s 0 = signal 0"
    using drift_loop_signal0[of env q ?c ?d "time_steps_calc setup" ?s0] l by simp
  show ?thesis
    unfolding make_signal_def Let_def l
    by (simp add: s make_signal_tail_signal0 split: prod.splits)
qed

lemma drift_loop_first_fails:
  assumes "fst (drift_velocity env (d_new_pt s) q (d_v s) (d_setup s)) < 0"
  shows "d_t (snd (drift_loop env q c d n s)) = d_t s \<and> fst (drift_loop env q c d n s) = Cond_False"
proof -
  obtain rc v where dv: "drift_velocity env (d_new_pt s) q (d_v s) (d_setup s) = (rc, v)"
    by (cases "drift_velocity env (d_new_pt s) q (d_v s) (d_setup s)")
  have "rc < 0" using assms dv by simp
  then have "drift_step env q c d n s = (Cond_False, s\<lparr>d_v := v\<rparr>)"
    by (simp add: drift_step_def dv)
  then have "drift_loop env q c d n s = (Cond_False, s\<lparr>d_v := v\<rparr>)"
    by (subst drift_loop.simps) simp
  then show ?thesis by simp
qed

lemma make_signal_tail_ret [simp]: "r_ret (make_signal_tail q n s setup st) = 0"
  by (simp add: make_signal_tail_def Let_def)

text \<open>
  C5, as the code has it. \<^verbatim>\<open>make_signal\<close> returns -1 in exactly three situations, and 0 in
  every other:
  \<^item> \<^verbatim>\<open>wpotential\<close> fails at a point where \<^verbatim>\<open>drift_velocity\<close> succeeded;
  \<^item> the loop is left at \<open>t = 0\<close>, in particular when \<^verbatim>\<open>drift_velocity\<close> fails at the start
    point (second conjunct);
  \<^item> the carrier left the field grid without the low-field mark, the straight-line drift
    to the crystal boundary uses up the step budget (\<open>n + t \<ge> ntsteps\<close>), and the carrier
    is a hole or its last weighting potential exceeds \<^verbatim>\<open>WP_THRESH_ELECTRONS\<close>.

  So an electron that runs out of steps is absorbed only when its weighting potential is
  at most \<^verbatim>\<open>WP_THRESH_ELECTRONS\<close>.
\<close>

theorem make_signal_failure:
  "(let collect2pc = ((q > 0 \<and> impurity_z0 setup < 0) \<or> (q < 0 \<and> impurity_z0 setup > 0));
        diffusion_coeff = (if q > 0 then DIFFUSION_COEF_H setup else DIFFUSION_COEF_E setup);
        ntsteps = time_steps_calc setup;
        (ex, s) = drift_loop env q collect2pc diffusion_coeff ntsteps
                     \<lparr>d_t = 0, d_new_pt = pt, d_v = zero_pt, d_dx = zero_pt, d_vel1 = 0,
                      d_low_field = 0, d_wpot = m_wpot st, d_wpot_old = m_wpot_old st,
                      d_signal = signal, d_setup = setup\<rparr>;
        (n, new_pt, setup') = edge_loop q ntsteps (d_t s) (d_dx s) 0 (d_new_pt s) (d_setup s);
        n' = (if n = 0 then 1 else int n)
    in r_ret (make_signal env pt signal q setup st) =
       (if ex = Return_m1 \<or> d_t s = 0 then - 1
        else if d_low_field s \<noteq> 0 then 0
        else if ntsteps \<le> n' + int (d_t s) \<and> (q > 0 \<or> d_wpot s > WP_THRESH_ELECTRONS env)
        then - 1 else 0)) \<and>
   (fst (drift_velocity env pt q zero_pt setup) < 0 \<longrightarrow>
      r_ret (make_signal env pt signal q setup st) = - 1)"
proof -
  let ?c = "(q > 0 \<and> impurity_z0 setup < 0) \<or> (q < 0 \<and> impurity_z0 setup > 0)"
  let ?d = "if q > 0 then DIFFUSION_COEF_H setup else DIFFUSION_COEF_E setup"
  let ?s0 = "\<lparr>d_t = 0, d_new_pt = pt, d_v = zero_pt, d_dx = zero_pt, d_vel1 = 0,
               d_low_field = 0, d_wpot = m_wpot st, d_wpot_old = m_wpot_old st,
               d_signal = signal, d_setup = setup\<rparr>"
  obtain ex s where l: "drift_loop env q ?c ?d (time_steps_calc setup) ?s0 = (ex, s)"
    by (cases "drift_loop env q ?c ?d (time_steps_calc setup) ?s0")
  obtain n np su where e:
    "edge_loop q (time_steps_calc setup) (d_t s) (d_dx s) 0 (d_new_pt s) (d_setup s) = (n, np, su)"
    by (cases "edge_loop q (time_steps_calc setup) (d_t s) (d_dx s) 0 (d_new_pt s) (d_setup s)")
  have ret: "r_ret (make_signal env pt signal q setup st) =
       (if ex = Return_m1 \<or> d_t s = 0 then - 1
        else if d_low_field s \<noteq> 0 then 0
        else if time_steps_calc setup \<le> (if n = 0 then 1 else int n) + int (d_t s) \<and>
                (q > 0 \<or> d_wpot s > WP_THRESH_ELECTRONS env)
        then - 1 else 0)"
    by (simp add: make_signal_def Let_def l e)
  have first: "r_ret (make_signal env pt signal q setup st) = - 1"
    if "fst (drift_velocity env pt q zero_pt setup) < 0"
  proof -
    have "d_t s = 0"
      using drift_loop_first_fails[of env ?s0 q ?c ?d "time_steps_calc setup"] that l by simp
    then show ?thesis using ret by simp
  qed
  show ?thesis
    using ret first by (simp add: Let_def l e)
qed

lemmas signal_eval =
  make_signal_def drift_loop.simps drift_step_def record_path_def track_cloud_def induce_def
  advance_def edge_loop.simps make_signal_tail_def outside_detector_def SQ_def
  vector_add_def vector_scale_def vector_length_def zero_pt_def
  DIFFUSION_COEF_H_def DIFFUSION_COEF_E_def ELECTRON_CHARGE_def HOLE_CHARGE_def
  example_env_def example_setup_def fresh_statics_def fresh_machine_def
  zero_signal_def clear_paths_def Let_def

text \<open>
  C10. \<^verbatim>\<open>make_signal\<close> leaves index 0 of the signal array as it found it, whatever the
  field, the carrier and the outcome of the call. So after the two calls of
  \<^verbatim>\<open>get_signal\<close> on the array it has just zeroed (for \<open>tsteps > 0\<close>), the current sample
  at step 0 is zero: this is the array that the prefix sum then starts from.
\<close>

theorem make_signal_index0:
  "r_signal (make_signal env pt signal q setup st) 0 = signal 0 \<and>
   r_signal (make_signal env pt
       (r_signal (make_signal env pt (zero_signal tsteps garbage) q1 setup1 st1))
       q2 setup2 st2) 0 = (if 0 < tsteps then 0 else garbage 0)"
  by (simp add: make_signal_signal0 zero_signal_def)

lemma config_kept_refl [simp]: "config_kept a a"
  by (simp add: config_kept_def)

lemma config_kept_trans: "config_kept a b \<Longrightarrow> config_kept b c \<Longrightarrow> config_kept a c"
  unfolding config_kept_def
  by (cases a, cases b, cases c) simp

lemma config_kept_upd [simp]:
  "config_kept a (a\<lparr>dpath_e := de\<rparr>)" "config_kept a (a\<lparr>dpath_h := dh\<rparr>)"
  "config_kept a (a\<lparr>final_vel := fv\<rparr>)"
  "config_kept a (a\<lparr>final_charge_size_sq := fc\<rparr>)"
  "config_kept a (a\<lparr>initial_vel := iv, final_vel := fv, final_charge_size_sq := fc\<rparr>)"
  by (simp_all add: config_kept_def)

lemma config_kept_fields:
  assumes "config_kept a b"
  shows "ntsteps_out b = ntsteps_out a" "time_steps_calc b = time_steps_calc a"
    "preamp_tau b = preamp_tau a" "step_time_out b = step_time_out a"
    "impurity_z0 b = impurity_z0 a" "zmax b = zmax a" "rmax b = rmax a"
  using assms unfolding config_kept_def by (cases a, cases b, simp)+

lemma drift_step_config: "config_kept (d_setup s) (d_setup (snd (drift_step env q c d n s)))"
proof -
  have a: "config_kept (d_setup s) (d_setup (record_path q s))" for s
    by (simp add: record_path_def)
  have b: "config_kept (d_setup s) (d_setup (track_cloud c d s))" for s c d
    by (simp add: track_cloud_def Let_def)
  have ab: "config_kept (d_setup s) (d_setup (track_cloud c d (record_path q s)))" for s c d
    using config_kept_trans[OF a b] .
  have i: "d_setup (induce q s) = d_setup s" for s by (simp add: induce_def)
  have ad: "d_setup (advance s) = d_setup s" for s by (simp add: advance_def Let_def)
  show ?thesis
    using ab[of "s\<lparr>d_v := v\<rparr>" for v, simplified]
    by (simp add: drift_step_def Let_def i ad split: prod.splits)
qed

lemma drift_loop_config: "config_kept (d_setup s) (d_setup (snd (drift_loop env q c d n s)))"
proof (induction env q c d n s rule: drift_loop.induct)
  case (1 env q c d n s)
  obtain ex s' where st: "drift_step env q c d n s = (ex, s')" by (cases "drift_step env q c d n s")
  have s': "config_kept (d_setup s) (d_setup s')"
    using drift_step_config[of s env q c d n] st by simp
  show ?case
  proof (cases "ex = Continue")
    case True
    have "drift_loop env q c d n s = drift_loop env q c d n s'"
      using st True by (subst drift_loop.simps) simp
    moreover have "config_kept (d_setup s') (d_setup (snd (drift_loop env q c d n s')))"
      using "1.IH"[OF st[symmetric]] True by simp
    ultimately show ?thesis using config_kept_trans[OF s'] by simp
  next
    case False
    then have "drift_loop env q c d n s = (ex, s')"
      using st by (subst drift_loop.simps) (cases ex; simp)
    then show ?thesis using s' by simp
  qed
qed

lemma edge_loop_config:
  "config_kept su (snd (snd (edge_loop q ntsteps t dx n new_pt su)))"
proof (induction q ntsteps t dx n new_pt su rule: edge_loop.induct)
  case (1 q ntsteps t dx n new_pt su)
  let ?p = "vector_add new_pt dx"
  let ?s = "if q > 0 then su\<lparr>dpath_h := (dpath_h su)(t + n := ?p)\<rparr>
            else su\<lparr>dpath_e := (dpath_e su)(t + n := ?p)\<rparr>"
  have k: "config_kept su ?s" by simp
  show ?case
  proof (cases "int n + int t < ntsteps")
    case True
    show ?thesis
    proof (cases "outside_detector ?p ?s \<noteq> 0")
      case True
      then show ?thesis
        using \<open>int n + int t < ntsteps\<close> k by (subst edge_loop.simps) (simp add: Let_def)
    next
      case False
      have "config_kept ?s (snd (snd (edge_loop q ntsteps t dx (n + 1) ?p ?s)))"
        using "1.IH"[OF True refl refl] False by simp
      then have "config_kept su (snd (snd (edge_loop q ntsteps t dx (n + 1) ?p ?s)))"
        using config_kept_trans[OF k] by blast
      then show ?thesis
        using True False by (subst edge_loop.simps) (simp add: Let_def)
    qed
  next
    case False
    then show ?thesis by (subst edge_loop.simps) simp
  qed
qed

lemma make_signal_tail_config:
  "config_kept a setup \<Longrightarrow> config_kept a (r_setup (make_signal_tail q n s setup st))"
  by (auto simp: make_signal_tail_def Let_def intro: config_kept_trans)

lemma make_signal_config: "config_kept setup (r_setup (make_signal env pt signal q setup st))"
proof -
  let ?c = "(q > 0 \<and> impurity_z0 setup < 0) \<or> (q < 0 \<and> impurity_z0 setup > 0)"
  let ?d = "if q > 0 then DIFFUSION_COEF_H setup else DIFFUSION_COEF_E setup"
  let ?s0 = "\<lparr>d_t = 0, d_new_pt = pt, d_v = zero_pt, d_dx = zero_pt, d_vel1 = 0,
               d_low_field = 0, d_wpot = m_wpot st, d_wpot_old = m_wpot_old st,
               d_signal = signal, d_setup = setup\<rparr>"
  obtain ex s where l: "drift_loop env q ?c ?d (time_steps_calc setup) ?s0 = (ex, s)"
    by (cases "drift_loop env q ?c ?d (time_steps_calc setup) ?s0")
  obtain n np su where e:
    "edge_loop q (time_steps_calc setup) (d_t s) (d_dx s) 0 (d_new_pt s) (d_setup s) = (n, np, su)"
    by (cases "edge_loop q (time_steps_calc setup) (d_t s) (d_dx s) 0 (d_new_pt s) (d_setup s)")
  have a: "config_kept setup (d_setup s)"
    using drift_loop_config[of ?s0 env q ?c ?d "time_steps_calc setup"] l by simp
  have "config_kept (d_setup s) su"
    using edge_loop_config[of "d_setup s" q "time_steps_calc setup" "d_t s" "d_dx s" 0 "d_new_pt s"] e
    by simp
  then have b: "config_kept setup su" using config_kept_trans[OF a] by blast
  have c: "config_kept setup ((d_setup s)\<lparr>final_vel := fv\<rparr>)" for fv
    using config_kept_trans[OF a] by simp
  show ?thesis
    by (simp add: make_signal_def Let_def l e a b c make_signal_tail_config)
qed

lemma allocate_fields [simp]:
  "g_tsteps (snd (allocate env n g)) = n"
  "g_signal (snd (allocate env n g)) = g_signal g"
  "g_sum (snd (allocate env n g)) = g_sum g"
  "g_tmp (snd (allocate env n g)) = g_tmp g"
  by (simp_all add: allocate_def Let_def)

lemma allocate_ok:
  "fst (allocate env n g) \<Longrightarrow>
     g_signal_len (snd (allocate env n g)) = Some n \<and>
     g_tmp_len (snd (allocate env n g)) = Some n \<and>
     g_sum_len (snd (allocate env n g)) = Some n"
  by (simp add: allocate_def Let_def split: if_splits)

lemma first_time_fields [simp]:
  "g_tsteps (snd (first_time env m)) = time_steps_calc (cfg m)"
  "g_signal (snd (first_time env m)) = g_signal (gs m)"
  "g_sum (snd (first_time env m)) = g_sum (gs m)"
  "g_tmp (snd (first_time env m)) = g_tmp (gs m)"
  by (simp_all add: first_time_def)

lemma first_time_again:
  "g_tsteps (gs m) = time_steps_calc (cfg m) \<Longrightarrow> first_time env m = (True, gs m)"
  by (simp add: first_time_def)

lemma in_bounds_Some [simp]: "in_bounds (Some n) n"
  by (simp add: in_bounds_def)

text \<open>
  The call at a point inside the detector, once the arrays are there: the two carriers,
  the charge signal, and for an output array the convolution, the compression and the
  preamplifier.
\<close>

lemma get_signal_inside:
  assumes "outside_detector pt (cfg m) = 0"
    and "fst (first_time env m)"
    and "in_bounds (g_signal_len (snd (first_time env m))) (time_steps_calc (cfg m)) \<and>
         0 \<le> time_steps_calc (cfg m)"
  shows "get_signal env pt signal_out m =
    (let g = snd (first_time env m);
         tsteps = time_steps_calc (cfg m);
         e = make_signal env pt (zero_signal tsteps (g_signal (gs m))) ELECTRON_CHARGE
               (clear_paths tsteps (cfg m)) (ms m);
         h = make_signal env pt (r_signal e) HOLE_CHARGE (r_setup e) (r_statics e);
         signal = accumulate tsteps (r_signal h);
         ret = (if r_ret h \<noteq> 0 then - 1 else 1)
     in case signal_out of
          None \<Rightarrow>
            Inr (ret, m\<lparr>cfg := r_setup h, gs := g\<lparr>g_signal := signal\<rparr>, ms := r_statics h\<rparr>)
        | Some p \<Rightarrow>
            (case convolve (r_setup h) tsteps (g_sum_len g) (g_tmp_len g)
                    (signal, g_sum (gs m), g_tmp (gs m)) of
               Inl f \<Rightarrow> Inl f
             | Inr (signal, sum1, tmp1) \<Rightarrow>
                 (case compress (r_setup h) signal p (mem m) of
                    Inl f \<Rightarrow> Inl f
                  | Inr h1 \<Rightarrow>
                      Inr (ret, \<lparr>mem = rc_preamp (r_setup h) p h1, cfg = r_setup h,
                                 gs = g\<lparr>g_signal := signal, g_sum := sum1, g_tmp := tmp1\<rparr>,
                                 ms = r_statics h\<rparr>))))"
proof -
  obtain ok g where f: "first_time env m = (ok, g)" by (cases "first_time env m")
  have ok: "ok" using assms(2) f by simp
  have ts: "g_tsteps g = time_steps_calc (cfg m)" "g_signal g = g_signal (gs m)"
    "g_sum g = g_sum (gs m)" "g_tmp g = g_tmp (gs m)"
    using first_time_fields[of env m] f by simp_all
  have ib: "in_bounds (g_signal_len g) (time_steps_calc (cfg m))" "0 \<le> time_steps_calc (cfg m)"
    using assms(3) f by simp_all
  show ?thesis
    using assms(1) ok ib
    by (simp add: get_signal_def f ts Let_def split: option.splits sum.splits prod.splits)
qed

text \<open>A call that returns at a point inside the detector had the arrays it writes.\<close>

lemma get_signal_returned:
  assumes "outside_detector pt (cfg m) = 0"
    and "fst (first_time env m)"
    and "get_signal env pt signal_out m = Inr res"
  shows "in_bounds (g_signal_len (snd (first_time env m))) (time_steps_calc (cfg m)) \<and>
         0 \<le> time_steps_calc (cfg m)"
proof -
  obtain ok g where f: "first_time env m = (ok, g)" by (cases "first_time env m")
  have ts: "g_tsteps g = time_steps_calc (cfg m)" using first_time_fields(1)[of env m] f by simp
  show ?thesis
    using assms by (auto simp: get_signal_def f ts Let_def split: if_splits)
qed

lemma clear_paths_config: "config_kept setup (clear_paths n setup)"
  by (simp add: clear_paths_def config_kept_def)

lemma carriers_config:
  "config_kept (cfg m)
     (r_setup (make_signal env pt sg q
        (r_setup (make_signal env pt sg' q' (clear_paths n (cfg m)) st)) st'))"
  using config_kept_trans[OF config_kept_trans[OF clear_paths_config make_signal_config]
      make_signal_config] .




text \<open>
  The theorem above the field (\<open>z = 6\<close>), where the first step fails; and an electron
  that runs out of steps at weighting potential 0, which is absorbed.
\<close>

theorem make_signal_failure_witness:
  "fst (drift_velocity example_env start6 ELECTRON_CHARGE zero_pt example_setup) < 0 \<and>
   r_ret (make_signal example_env start6 (\<lambda>_. 0) ELECTRON_CHARGE example_setup
            (snd fresh_statics)) = - 1 \<and>
   r_ret (make_signal (example_env\<lparr>wpotential := (\<lambda>pt wp setup. (0, 0))\<rparr>) start5 (\<lambda>_. 0)
            ELECTRON_CHARGE example_setup (snd fresh_statics)) = 0"
proof -
  have a: "fst (drift_velocity example_env start6 ELECTRON_CHARGE zero_pt example_setup) < 0"
    by (simp add: example_env_def start6_def)
  have "r_ret (make_signal example_env start6 (\<lambda>_. 0) ELECTRON_CHARGE example_setup
            (snd fresh_statics)) = - 1"
    using make_signal_failure[of ELECTRON_CHARGE example_setup example_env start6
        "snd fresh_statics" "\<lambda>_. 0"] a
    by blast
  moreover have "r_ret (make_signal (example_env\<lparr>wpotential := (\<lambda>pt wp setup. (0, 0))\<rparr>)
            start5 (\<lambda>_. 0) ELECTRON_CHARGE example_setup (snd fresh_statics)) = 0"
    by (simp add: signal_eval start5_def)
  ultimately show ?thesis using a by simp
qed

text \<open>
  C5 as stated fails: the electron started at \<open>z = 5\<close> leaves the field grid after one
  step (\<open>t = 1\<close>, no low-field mark), drifts three more steps without reaching the crystal
  boundary (\<open>n + t = 4 = ntsteps\<close>), and the call returns -1, since its weighting
  potential 0.5 exceeds the threshold.
\<close>

theorem make_signal_electron_counterexample:
  "ELECTRON_CHARGE < 0 \<and>
   drift_loop example_env ELECTRON_CHARGE False (DIFFUSION_COEF_E example_setup) 4
     \<lparr>d_t = 0, d_new_pt = start5, d_v = zero_pt, d_dx = zero_pt, d_vel1 = 0,
      d_low_field = 0, d_wpot = 0, d_wpot_old = 0, d_signal = (\<lambda>_. 0),
      d_setup = example_setup\<rparr> =
   (Cond_False,
     \<lparr>d_t = 1, d_new_pt = \<lparr>px = 0, py = 0, pz = 6\<rparr>, d_v = \<lparr>px = 0, py = 0, pz = 1\<rparr>,
      d_dx = \<lparr>px = 0, py = 0, pz = 1\<rparr>, d_vel1 = 0,
      d_low_field = 0, d_wpot = 0.5, d_wpot_old = 0.5, d_signal = (\<lambda>_. 0),
      d_setup = example_setup\<lparr>dpath_e := (dpath_e example_setup)(0 := start5)\<rparr>\<rparr>) \<and>
   fst (edge_loop ELECTRON_CHARGE 4 1 \<lparr>px = 0, py = 0, pz = 1\<rparr> 0 \<lparr>px = 0, py = 0, pz = 6\<rparr>
          (example_setup\<lparr>dpath_e := (dpath_e example_setup)(0 := start5)\<rparr>)) = 3 \<and>
   r_ret (make_signal example_env start5 (\<lambda>_. 0) ELECTRON_CHARGE example_setup
            (snd fresh_statics)) = - 1"
  by (simp add: signal_eval start5_def)

subsection \<open>Two calls with the same arguments\<close>

lemma example_config:
  assumes "config_kept example_setup su"
  shows "su = example_setup\<lparr>dpath_e := dpath_e su, dpath_h := dpath_h su,
           initial_vel := initial_vel su, final_vel := final_vel su,
           final_charge_size_sq := final_charge_size_sq su\<rparr>"
  using assms unfolding config_kept_def .

lemma electron_at_start2:
  assumes "config_kept example_setup su"
  shows "m_wpot_old st = 0 \<Longrightarrow>
           r_ret (make_signal example_env start2 sg ELECTRON_CHARGE su st) = 0 \<and>
           r_statics (make_signal example_env start2 sg ELECTRON_CHARGE su st)
             = st\<lparr>m_wpot := 0.5, m_wpot_old := 0.5\<rparr>"
    and "m_wpot_old st = 1 \<Longrightarrow>
           r_ret (make_signal example_env start2 sg ELECTRON_CHARGE su st) = - 1 \<and>
           r_statics (make_signal example_env start2 sg ELECTRON_CHARGE su st)
             = st\<lparr>m_wpot := 0.9995, m_wpot_old := 1\<rparr>"
proof -
  obtain de dh iv fv fc where su: "su = example_setup\<lparr>dpath_e := de, dpath_h := dh,
           initial_vel := iv, final_vel := fv, final_charge_size_sq := fc\<rparr>"
    using example_config[OF assms] by blast
  show "m_wpot_old st = 0 \<Longrightarrow>
           r_ret (make_signal example_env start2 sg ELECTRON_CHARGE su st) = 0 \<and>
           r_statics (make_signal example_env start2 sg ELECTRON_CHARGE su st)
             = st\<lparr>m_wpot := 0.5, m_wpot_old := 0.5\<rparr>"
    unfolding su by (simp add: signal_eval start2_def)
  show "m_wpot_old st = 1 \<Longrightarrow>
           r_ret (make_signal example_env start2 sg ELECTRON_CHARGE su st) = - 1 \<and>
           r_statics (make_signal example_env start2 sg ELECTRON_CHARGE su st)
             = st\<lparr>m_wpot := 0.9995, m_wpot_old := 1\<rparr>"
    unfolding su by (simp add: signal_eval start2_def)
qed

lemma hole_at_start2:
  assumes "config_kept example_setup su"
  shows "m_wpot_old st = 0.5 \<Longrightarrow>
           r_ret (make_signal example_env start2 sg HOLE_CHARGE su st) = 0 \<and>
           r_statics (make_signal example_env start2 sg HOLE_CHARGE su st)
             = st\<lparr>m_wpot := 1, m_wpot_old := 1\<rparr>"
    and "m_wpot_old st = 1 \<Longrightarrow>
           r_ret (make_signal example_env start2 sg HOLE_CHARGE su st) = - 1 \<and>
           r_statics (make_signal example_env start2 sg HOLE_CHARGE su st)
             = st\<lparr>m_wpot := 0.9995, m_wpot_old := 1\<rparr>"
proof -
  obtain de dh iv fv fc where su: "su = example_setup\<lparr>dpath_e := de, dpath_h := dh,
           initial_vel := iv, final_vel := fv, final_charge_size_sq := fc\<rparr>"
    using example_config[OF assms] by blast
  show "m_wpot_old st = 0.5 \<Longrightarrow>
           r_ret (make_signal example_env start2 sg HOLE_CHARGE su st) = 0 \<and>
           r_statics (make_signal example_env start2 sg HOLE_CHARGE su st)
             = st\<lparr>m_wpot := 1, m_wpot_old := 1\<rparr>"
    unfolding su by (simp add: signal_eval start2_def)
  show "m_wpot_old st = 1 \<Longrightarrow>
           r_ret (make_signal example_env start2 sg HOLE_CHARGE su st) = - 1 \<and>
           r_statics (make_signal example_env start2 sg HOLE_CHARGE su st)
             = st\<lparr>m_wpot := 0.9995, m_wpot_old := 1\<rparr>"
    unfolding su by (simp add: signal_eval start2_def)
qed

lemma get_signal_at_start2:
  assumes c: "cfg m = example_setup"
    and ok: "fst (first_time example_env m)"
    and ib: "in_bounds (g_signal_len (snd (first_time example_env m))) 4"
  shows "m_wpot_old (ms m) = 0 \<Longrightarrow>
           \<exists>m'. get_signal example_env start2 None m = Inr (1, m') \<and> mem m' = mem m \<and>
             ms m' = (ms m)\<lparr>m_wpot := 1, m_wpot_old := 1\<rparr> \<and>
             g_tsteps (gs m') = 4 \<and>
             g_signal_len (gs m') = g_signal_len (snd (first_time example_env m))"
    and "m_wpot_old (ms m) = 1 \<Longrightarrow>
           \<exists>m'. get_signal example_env start2 None m = Inr (- 1, m') \<and> mem m' = mem m"
proof -
  let ?sg = "zero_signal 4 (g_signal (gs m))"
  let ?su = "clear_paths 4 example_setup"
  let ?e = "make_signal example_env start2 ?sg ELECTRON_CHARGE ?su (ms m)"
  let ?h = "make_signal example_env start2 (r_signal ?e) HOLE_CHARGE (r_setup ?e) (r_statics ?e)"
  have k1: "config_kept example_setup ?su" by (rule clear_paths_config)
  have k2: "config_kept example_setup (r_setup ?e)"
    using config_kept_trans[OF k1 make_signal_config] .
  have ins: "outside_detector start2 (cfg m) = 0"
    by (simp add: c outside_detector_def example_setup_def start2_def SQ_def)
  have ts: "time_steps_calc example_setup = 4"
    by (simp add: example_setup_def)
  have ib': "in_bounds (g_signal_len (snd (first_time example_env m))) (time_steps_calc (cfg m)) \<and>
             0 \<le> time_steps_calc (cfg m)"
    using ib by (simp add: c ts)
  have unf: "get_signal example_env start2 None m =
      Inr (if r_ret ?h \<noteq> 0 then - 1 else 1,
           m\<lparr>cfg := r_setup ?h,
             gs := (snd (first_time example_env m))\<lparr>g_signal := accumulate 4 (r_signal ?h)\<rparr>,
             ms := r_statics ?h\<rparr>)"
    unfolding get_signal_inside[OF ins ok ib'] by (simp add: Let_def c ts)
  have gt: "g_tsteps (snd (first_time example_env m)) = 4"
    by (simp add: c ts)
  {
    assume a: "m_wpot_old (ms m) = 0"
    have e: "r_statics ?e = (ms m)\<lparr>m_wpot := 0.5, m_wpot_old := 0.5\<rparr>"
      using electron_at_start2(1)[OF k1 a] by simp
    have "m_wpot_old (r_statics ?e) = 0.5" by (simp add: e)
    from hole_at_start2(1)[OF k2 this]
    have "r_ret ?h = 0" "r_statics ?h = (ms m)\<lparr>m_wpot := 1, m_wpot_old := 1\<rparr>"
      by (simp_all add: e)
    then show "\<exists>m'. get_signal example_env start2 None m = Inr (1, m') \<and> mem m' = mem m \<and>
             ms m' = (ms m)\<lparr>m_wpot := 1, m_wpot_old := 1\<rparr> \<and>
             g_tsteps (gs m') = 4 \<and>
             g_signal_len (gs m') = g_signal_len (snd (first_time example_env m))"
      unfolding unf using gt by simp
  }
  {
    assume a: "m_wpot_old (ms m) = 1"
    have e: "r_statics ?e = (ms m)\<lparr>m_wpot := 0.9995, m_wpot_old := 1\<rparr>"
      using electron_at_start2(2)[OF k1 a] by simp
    have "m_wpot_old (r_statics ?e) = 1" by (simp add: e)
    from hole_at_start2(2)[OF k2 this]
    have "r_ret ?h = - 1" by simp
    then show "\<exists>m'. get_signal example_env start2 None m = Inr (- 1, m') \<and> mem m' = mem m"
      unfolding unf by simp
  }
qed

lemma fresh_allocation:
  "first_time example_env fresh_machine =
     (True, (gs fresh_machine)\<lparr>g_tsteps := 4, g_signal_len := Some 4, g_tmp_len := Some 4,
                               g_sum_len := Some 4\<rparr>)"
  by (simp add: first_time_def allocate_def fresh_machine_def fresh_statics_def
      example_setup_def example_env_def)

text \<open>
  C9 fails on the code. In a process that has just started, \<^verbatim>\<open>get_signal\<close> at \<open>z = 2\<close>
  (weighting potential 0.9995) returns 1. The same call again, with the same point, the
  same output pointer, the same memory and the setup reset to the same value, returns -1:
  at \<open>t = 0\<close> line 256 compares \<^verbatim>\<open>wpot\<close> with the static \<^verbatim>\<open>wpot_old\<close> that the previous call
  left (line 254 guards the same read with \<open>t > 0\<close>), both carriers stop at step 0, and
  both calls of \<^verbatim>\<open>make_signal\<close> fail.
\<close>

theorem get_signal_not_repeatable:
  "\<exists>m1 m2. get_signal example_env start2 None fresh_machine = Inr (1, m1) \<and>
      get_signal example_env start2 None (m1\<lparr>cfg := cfg fresh_machine\<rparr>) = Inr (- 1, m2) \<and>
      mem m1 = mem fresh_machine \<and> mem m2 = mem fresh_machine"
proof -
  have c: "cfg fresh_machine = example_setup" "fst (first_time example_env fresh_machine)"
    "in_bounds (g_signal_len (snd (first_time example_env fresh_machine))) 4"
    and w: "m_wpot_old (ms fresh_machine) = 0"
    by (simp_all add: fresh_allocation) (simp_all add: fresh_machine_def fresh_statics_def)
  from get_signal_at_start2(1)[OF c w] obtain m1 where
    g1: "get_signal example_env start2 None fresh_machine = Inr (1, m1)"
    and me1: "mem m1 = mem fresh_machine"
    and st1: "ms m1 = (ms fresh_machine)\<lparr>m_wpot := 1, m_wpot_old := 1\<rparr>"
    and al: "g_tsteps (gs m1) = 4" "g_signal_len (gs m1) = Some 4"
    by (auto simp: fresh_allocation)
  let ?m = "m1\<lparr>cfg := cfg fresh_machine\<rparr>"
  have ft: "first_time example_env ?m = (True, gs m1)"
    by (simp add: first_time_def al c(1) example_setup_def)
  have c2: "cfg ?m = example_setup" "fst (first_time example_env ?m)"
    "in_bounds (g_signal_len (snd (first_time example_env ?m))) 4"
    and w2: "m_wpot_old (ms ?m) = 1"
    unfolding ft by (simp_all add: c(1) st1 al)
  from get_signal_at_start2(2)[OF c2 w2] obtain m2 where
    "get_signal example_env start2 None ?m = Inr (- 1, m2)"
    "mem m2 = mem ?m"
    by blast
  then show ?thesis using g1 me1 by auto
qed

section \<open>Properties of the relaxation solver\<close>

lemma pixels_mem: "(zz, r) \<in> set (pixels nz nr) \<longleftrightarrow> int zz < nz \<and> int r < nr"
  by (auto simp: pixels_def)

lemma fold_pixel:
  assumes inv: "\<And>a s. I s \<Longrightarrow> I (body a s)"
    and est: "\<And>s. I s \<Longrightarrow> Q (body x s)"
    and pres: "\<And>a s. a \<noteq> x \<Longrightarrow> I s \<Longrightarrow> Q s \<Longrightarrow> Q (body a s)"
  shows "I s \<Longrightarrow> Q s \<or> x \<in> set xs \<Longrightarrow> Q (fold body xs s) \<and> I (fold body xs s)"
proof (induction xs arbitrary: s)
  case Nil
  then show ?case by simp
next
  case (Cons a xs)
  have i: "I (body a s)" using inv Cons.prems(1) by blast
  have "Q (body a s) \<or> x \<in> set xs"
  proof (cases "a = x")
    case True
    then show ?thesis using est Cons.prems(1) by blast
  next
    case False
    then show ?thesis using pres[OF False Cons.prems(1)] Cons.prems(2) by auto
  qed
  then show ?case using Cons.IH[OF i] by simp
qed

lemma for_pixels_pixel:
  assumes inv: "\<And>zz r s. I s \<Longrightarrow> I (body zz r s)"
    and est: "\<And>s. I s \<Longrightarrow> Q (body z0 r0 s)"
    and pres: "\<And>zz r s. (zz, r) \<noteq> (z0, r0) \<Longrightarrow> I s \<Longrightarrow> Q s \<Longrightarrow> Q (body zz r s)"
    and start: "I s"
    and mem: "int z0 < nz" "int r0 < nr"
  shows "Q (for_pixels nz nr body s) \<and> I (for_pixels nz nr body s)"
proof -
  have m: "(z0, r0) \<in> set (pixels nz nr)" using mem by (simp add: pixels_mem)
  show ?thesis
    unfolding for_pixels_def
  proof (rule fold_pixel[where x = "(z0, r0)" and I = I and Q = Q])
    show "I ((case a of (zz, r) \<Rightarrow> body zz r) s)" if "I s" for a s
      using inv that by (cases a) simp
    show "Q ((case (z0, r0) of (zz, r) \<Rightarrow> body zz r) s)" if "I s" for s
      using est that by simp
    show "Q ((case a of (zz, r) \<Rightarrow> body zz r) s)" if "a \<noteq> (z0, r0)" "I s" "Q s" for a s
      using pres that by (cases a) simp
    show "I s" by fact
    show "Q s \<or> (z0, r0) \<in> set (pixels nz nr)" using m by simp
  qed
qed

lemma upd2_apply [simp]: "upd2 a i j x i' j' = (if i' = i \<and> j' = j then x else a i' j')"
  by (simp add: upd2_def)

lemma set_v_fields [simp]:
  "v (set_v i zz r x g) i' z' r' = (if i' = i \<and> z' = zz \<and> r' = r then x else v g i' z' r')"
  "bulk (set_v i zz r x g) = bulk g" "undepleted (set_v i zz r x g) = undepleted g"
  "vfraction (set_v i zz r x g) = vfraction g" "eps_dr (set_v i zz r x g) = eps_dr g"
  "eps_dz (set_v i zz r x g) = eps_dz g" "eps (set_v i zz r x g) = eps g"
  "fRC (set_v i zz r x g) = fRC g" "fLC (set_v i zz r x g) = fLC g"
  "bubble_volts (set_v i zz r x g) = bubble_volts g"
  "sum_dif (set_v i zz r x g) = sum_dif g" "max_dif (set_v i zz r x g) = max_dif g"
  "pinched_sum1 (set_v i zz r x g) = pinched_sum1 g"
  "pinched_sum2 (set_v i zz r x g) = pinched_sum2 g"
  by (simp_all add: set_v_def)

lemma fix_pixel_fields [simp]:
  "v (fix_pixel x zz r g) i z' r' =
     (if (i = 0 \<or> i = 1) \<and> z' = zz \<and> r' = r then x else v g i z' r')"
  "bulk (fix_pixel x zz r g) z' r' = (if z' = zz \<and> r' = r then - 1 else bulk g z' r')"
  "undepleted (fix_pixel x zz r g) = undepleted g"
  by (auto simp: fix_pixel_def)

lemma volume_pixel_fields [simp]:
  "v (volume_pixel p zz r g) = v g"
  "bulk (volume_pixel p zz r g) z' r' = (if z' = zz \<and> r' = r then 0 else bulk g z' r')"
  "undepleted (volume_pixel p zz r g) = undepleted g"
  by (simp_all add: volume_pixel_def Let_def)

lemma contact_pixel_fields [simp]:
  "v (contact_pixel p zz r g) = v g"
  "bulk (contact_pixel p zz r g) z' r' =
     (if z' = zz \<and> r' = r then
        (if int zz = LC p \<and> dLC p < - 0.05 then 2
         else if int r = RC p \<and> dRC p < - 0.05 then 1 else bulk g zz r)
      else bulk g z' r')"
  "undepleted (contact_pixel p zz r g) = undepleted g"
  by (simp_all add: contact_pixel_def Let_def)

lemma wp_contact_pixel_fields [simp]:
  "v (wp_contact_pixel p zz r g) = v g"
  "bulk (wp_contact_pixel p zz r g) z' r' =
     (if z' = zz \<and> r' = r then
        (if int zz = LC p \<and> dLC p < - 0.05 then 2
         else if int r = RC p \<and> dRC p < - 0.05 then 1 else bulk g zz r)
      else bulk g z' r')"
  "undepleted (wp_contact_pixel p zz r g) = undepleted g"
  by (simp_all add: wp_contact_pixel_def Let_def)

lemma next_to_contact_fields [simp]:
  "v (next_to_contact p zz r g) = v g"
  "bulk (next_to_contact p zz r g) z' r' =
     (if z' = zz \<and> r' = r then
        (if int zz \<le> LC p \<and> int r = RC p + 1 \<and> dRC p > 0.05 then 1
         else if int zz = LC p + 1 \<and> int r \<le> RC p \<and> dLC p > 0.05 then 2 else bulk g zz r)
      else bulk g z' r')"
  "undepleted (next_to_contact p zz r g) = undepleted g"
  by (simp_all add: next_to_contact_def)

lemma undepleted_pixel_fields [simp]:
  "undepleted (undepleted_pixel fd gf zz r g) = undepleted g"
  "(z', r') \<noteq> (zz, r) \<Longrightarrow> v (undepleted_pixel fd gf zz r g) i z' r' = v g i z' r'"
  "(z', r') \<noteq> (zz, r) \<Longrightarrow> bulk (undepleted_pixel fd gf zz r g) z' r' = bulk g z' r'"
  "\<not> marked fd gf g zz r \<Longrightarrow> undepleted_pixel fd gf zz r g = g"
  by (auto simp: undepleted_pixel_def marked_def)

lemma undepleted_pixel_bulk:
  "bulk (undepleted_pixel fd gf zz r g) zz r \<in> {- 1, 3, bulk g zz r}"
  by (simp add: undepleted_pixel_def)

text \<open>The flag and the two values that the boundary loop leaves at a pixel.\<close>

lemma boundary_pixel_own:
  "(outer_contact p zz r \<longrightarrow>
      bulk (boundary_pixel p zz r g) zz r = - 1 \<and>
      v (boundary_pixel p zz r g) 0 zz r = BV p \<and> v (boundary_pixel p zz r g) 1 zz r = BV p) \<and>
   (point_contact p zz r \<and> \<not> outer_contact p zz r \<and> \<not> contact_edge p zz r \<longrightarrow>
      bulk (boundary_pixel p zz r g) zz r = - 1 \<and>
      v (boundary_pixel p zz r g) 0 zz r = 0 \<and> v (boundary_pixel p zz r g) 1 zz r = 0) \<and>
   bulk (boundary_pixel p zz r g) zz r \<in> {- 1, 0, 1, 2} \<and>
   (bulk (boundary_pixel p zz r g) zz r = 1 \<longrightarrow> int r = RC p \<or> int r = RC p + 1) \<and>
   (bulk (boundary_pixel p zz r g) zz r = 2 \<longrightarrow> int zz = LC p \<or> int zz = LC p + 1) \<and>
   (bulk (boundary_pixel p zz r g) zz r \<ge> 0 \<longrightarrow> \<not> outer_contact p zz r) \<and>
   (bulk (boundary_pixel p zz r g) zz r < 0 \<longrightarrow>
      (v (boundary_pixel p zz r g) 0 zz r = BV p \<and> v (boundary_pixel p zz r g) 1 zz r = BV p) \<or>
      (v (boundary_pixel p zz r g) 0 zz r = 0 \<and> v (boundary_pixel p zz r g) 1 zz r = 0))"
  by (simp add: boundary_pixel_def Let_def contact_edge_def)

lemma boundary_pixel_other:
  "(z', r') \<noteq> (zz, r) \<Longrightarrow>
     bulk (boundary_pixel p z' r' g) zz r = bulk g zz r \<and>
     v (boundary_pixel p z' r' g) i zz r = v g i zz r"
  by (auto simp: boundary_pixel_def Let_def)

lemma pixel_set_cong:
  "bulk g' zz r = bulk g zz r \<Longrightarrow> v g' 0 zz r = v g 0 zz r \<Longrightarrow> v g' 1 zz r = v g 1 zz r \<Longrightarrow>
   pixel_set p hv pc zz r g' = pixel_set p hv pc zz r g"
  by (simp add: pixel_set_def)

lemma boundary_pixel_sets: "pixel_set p (BV p) 0 zz r (boundary_pixel p zz r g)"
  unfolding pixel_set_def by (rule boundary_pixel_own)

lemma set_boundaries_pixel:
  assumes "int zz \<le> L p" "int r \<le> R p"
  shows "pixel_set p (BV p) 0 zz r (set_boundaries p g)"
proof -
  have "pixel_set p (BV p) 0 zz r
          (for_pixels (L p + 1) (R p + 1) (boundary_pixel p) s) \<and> True" for s
  proof (rule for_pixels_pixel[where I = "\<lambda>_. True"])
    show "pixel_set p (BV p) 0 zz r (boundary_pixel p zz r s)" for s
      by (rule boundary_pixel_sets)
    show "pixel_set p (BV p) 0 zz r (boundary_pixel p z' r' s)"
      if "(z', r') \<noteq> (zz, r)" "pixel_set p (BV p) 0 zz r s" for z' r' s
    proof -
      have "pixel_set p (BV p) 0 zz r (boundary_pixel p z' r' s) = pixel_set p (BV p) 0 zz r s"
        by (rule pixel_set_cong) (simp_all add: boundary_pixel_other[OF that(1)])
      then show ?thesis using that(2) by simp
    qed
    show "int zz < L p + 1" "int r < R p + 1" using assms by simp_all
  qed simp_all
  then show ?thesis by (simp add: set_boundaries_def)
qed

lemma poisson_update_fields [simp]:
  "bulk (poisson_update p old new zz r acc g) = bulk g"
  "i \<noteq> new \<or> z' \<noteq> zz \<or> r' \<noteq> r \<Longrightarrow>
     v (poisson_update p old new zz r acc g) i z' r' = v g i z' r'"
  by (auto simp: poisson_update_def Let_def split: prod.splits)

lemma poisson_pixel_frame:
  assumes "poisson_pixel p old new pix g = Inr g'"
  shows "bulk g' = bulk g \<and> (\<forall>i zz r. bulk g zz r < 0 \<longrightarrow> v g' i zz r = v g i zz r)"
proof -
  obtain z0 r0 where pix: "pix = (z0, r0)" by (cases pix)
  show ?thesis
  proof (cases "bulk g z0 r0 < 0")
    case True
    then show ?thesis using assms by (simp add: poisson_pixel_def pix)
  next
    case False
    then obtain acc where g': "g' = poisson_update p old new z0 r0 acc g"
      using assms by (auto simp: poisson_pixel_def pix split: sum.splits)
    have "v g' i zz r = v g i zz r" if "bulk g zz r < 0" for i zz r
    proof -
      have "zz \<noteq> z0 \<or> r \<noteq> r0" using that False by auto
      then show ?thesis unfolding g' by (intro poisson_update_fields(2)) blast
    qed
    then show ?thesis by (simp add: g')
  qed
qed

lemma for_each_frame:
  assumes step: "\<And>a s s'. body a s = Inr s' \<Longrightarrow>
      bulk s' = bulk s \<and> (\<forall>i zz r. bulk s zz r < 0 \<longrightarrow> v s' i zz r = v s i zz r)"
  shows "for_each body xs g = Inr g' \<Longrightarrow>
      bulk g' = bulk g \<and> (\<forall>i zz r. bulk g zz r < 0 \<longrightarrow> v g' i zz r = v g i zz r)"
proof (induction xs arbitrary: g)
  case Nil
  then show ?case by simp
next
  case (Cons a xs)
  then obtain s where s: "body a g = Inr s" and r: "for_each body xs s = Inr g'"
    by (auto split: sum.splits)
  show ?case using step[OF s] Cons.IH[OF r] by simp
qed

lemma poisson_sweep_frame:
  assumes "poisson_sweep p old new g = Inr g'"
  shows "bulk g' = bulk g \<and> (\<forall>i zz r. bulk g zz r < 0 \<longrightarrow> v g' i zz r = v g i zz r)"
  using assms unfolding poisson_sweep_def
  by (rule for_each_frame[rotated]) (rule poisson_pixel_frame)

lemma poisson_relax_frame:
  "poisson_relax p n old new g = Inr (old', new', g') \<Longrightarrow>
   bulk g' = bulk g \<and> (\<forall>i zz r. bulk g zz r < 0 \<longrightarrow> v g' i zz r = v g i zz r)"
proof (induction n arbitrary: old new g)
  case 0
  then show ?case by simp
next
  case (Suc n)
  let ?old = "if old = 0 then 1 else (0::nat)"
  let ?new = "if old = 0 then 0 else (1::nat)"
  let ?g = "g\<lparr>sum_dif := 0.0, max_dif := 0.0, bubble_volts := 0.0\<rparr>"
  from Suc.prems obtain g1 where sw: "poisson_sweep p ?old ?new ?g = Inr g1"
    and rest: "(if max_dif g1 < 0.000000001 then Inr (?old, ?new, g1)
                else poisson_relax p n ?old ?new g1) = Inr (old', new', g')"
    by (auto simp: Let_def split: sum.splits if_splits)
  have f1: "bulk g1 = bulk g \<and> (\<forall>i zz r. bulk g zz r < 0 \<longrightarrow> v g1 i zz r = v g i zz r)"
    using poisson_sweep_frame[OF sw] by simp
  show ?case
  proof (cases "max_dif g1 < 0.000000001")
    case True
    then have "g' = g1" using rest by simp
    then show ?thesis using f1 by simp
  next
    case False
    then have "poisson_relax p n ?old ?new g1 = Inr (old', new', g')" using rest by simp
    from Suc.IH[OF this] show ?thesis using f1 by simp
  qed
qed

lemma fixed_pixels_hold:
  assumes ps: "pixel_set p hv pc zz r g0"
    and f: "\<forall>i zz r. bulk g0 zz r < 0 \<longrightarrow> v g i zz r = v g0 i zz r"
  shows "(outer_contact p zz r \<longrightarrow> v g 0 zz r = hv \<and> v g 1 zz r = hv) \<and>
       (point_contact p zz r \<and> \<not> outer_contact p zz r \<and> \<not> contact_edge p zz r \<longrightarrow>
          v g 0 zz r = pc \<and> v g 1 zz r = pc)"
proof (intro conjI impI)
  assume o: "outer_contact p zz r"
  then have b: "bulk g0 zz r = - 1" and v0: "v g0 0 zz r = hv" and v1: "v g0 1 zz r = hv"
    using ps unfolding pixel_set_def by blast+
  have "bulk g0 zz r < 0" using b by simp
  then show "v g 0 zz r = hv" "v g 1 zz r = hv" using f v0 v1 by simp_all
next
  assume c: "point_contact p zz r \<and> \<not> outer_contact p zz r \<and> \<not> contact_edge p zz r"
  then have b: "bulk g0 zz r = - 1" and v0: "v g0 0 zz r = pc" and v1: "v g0 1 zz r = pc"
    using ps unfolding pixel_set_def by blast+
  have "bulk g0 zz r < 0" using b by simp
  then show "v g 0 zz r = pc" "v g 1 zz r = pc" using f v0 v1 by simp_all
qed

lemma electrodes_hold_poisson_relax:
  assumes "poisson_relax p n old new (set_boundaries p g0) = Inr (old', new', g)"
  shows "electrodes_hold p (BV p) 0 (\<lambda>_ _. False) (\<lambda>_ _. False) g"
proof -
  have f: "\<forall>i zz r. bulk (set_boundaries p g0) zz r < 0 \<longrightarrow>
             v g i zz r = v (set_boundaries p g0) i zz r"
    using poisson_relax_frame[OF assms] by blast
  have "(outer_contact p zz r \<longrightarrow> v g 0 zz r = BV p \<and> v g 1 zz r = BV p) \<and>
       (point_contact p zz r \<and> \<not> outer_contact p zz r \<and> \<not> contact_edge p zz r \<longrightarrow>
          v g 0 zz r = 0 \<and> v g 1 zz r = 0)"
    if "int zz \<le> L p \<and> int r \<le> R p" for zz r
  proof -
    have ps: "pixel_set p (BV p) 0 zz r (set_boundaries p g0)"
      using set_boundaries_pixel that by simp
    show ?thesis by (rule fixed_pixels_hold[OF ps f])
  qed
  then show ?thesis unfolding electrodes_hold_def by blast
qed

lemma permittivity_pixel_fields [simp]:
  "v (permittivity_pixel p zz r g) = v g" "bulk (permittivity_pixel p zz r g) = bulk g"
  "undepleted (permittivity_pixel p zz r g) = undepleted g"
  by (simp_all add: permittivity_pixel_def Let_def)

lemma for_pixels_undepleted:
  assumes "\<And>zz r s. undepleted (body zz r s) = undepleted s"
  shows "undepleted (for_pixels nz nr body g) = undepleted g"
proof -
  have "undepleted (fold (\<lambda>(zz, r). body zz r) xs g) = undepleted g" for xs
    by (induction xs arbitrary: g) (auto simp: assms)
  then show ?thesis by (simp add: for_pixels_def)
qed

lemma marked_cong: "undepleted g' = undepleted g \<Longrightarrow> marked fd gf g' = marked fd gf g"
  by (simp add: marked_def fun_eq_iff)

lemma wp_boundary_pixel_undepleted [simp]:
  "undepleted (wp_boundary_pixel p fd gf zz r g) = undepleted g"
  by (simp add: wp_boundary_pixel_def Let_def)

lemma wp_boundary_pixel_own:
  "(outer_contact p zz r \<longrightarrow>
      bulk (wp_boundary_pixel p True gf zz r g) zz r = - 1 \<and>
      v (wp_boundary_pixel p True gf zz r g) 0 zz r = 0 \<and>
      v (wp_boundary_pixel p True gf zz r g) 1 zz r = 0) \<and>
   (point_contact p zz r \<and> \<not> outer_contact p zz r \<and> \<not> contact_edge p zz r \<longrightarrow>
      bulk (wp_boundary_pixel p True gf zz r g) zz r = - 1 \<and>
      v (wp_boundary_pixel p True gf zz r g) 0 zz r = 1 \<and>
      v (wp_boundary_pixel p True gf zz r g) 1 zz r = 1) \<and>
   bulk (wp_boundary_pixel p True gf zz r g) zz r \<in> {- 1, 0, 1, 2} \<and>
   (bulk (wp_boundary_pixel p True gf zz r g) zz r = 1 \<longrightarrow> int r = RC p \<or> int r = RC p + 1) \<and>
   (bulk (wp_boundary_pixel p True gf zz r g) zz r = 2 \<longrightarrow> int zz = LC p \<or> int zz = LC p + 1) \<and>
   (bulk (wp_boundary_pixel p True gf zz r g) zz r \<ge> 0 \<longrightarrow> \<not> outer_contact p zz r) \<and>
   (bulk (wp_boundary_pixel p True gf zz r g) zz r < 0 \<longrightarrow>
      (v (wp_boundary_pixel p True gf zz r g) 0 zz r = 0 \<and>
       v (wp_boundary_pixel p True gf zz r g) 1 zz r = 0) \<or>
      (v (wp_boundary_pixel p True gf zz r g) 0 zz r = 1 \<and>
       v (wp_boundary_pixel p True gf zz r g) 1 zz r = 1))"
  by (simp add: wp_boundary_pixel_def Let_def contact_edge_def undepleted_pixel_def)

lemma wp_boundary_pixel_unmarked:
  assumes "\<not> marked fd gf g zz r"
  shows "wp_boundary_pixel p fd gf zz r g = wp_boundary_pixel p True gf zz r g"
proof -
  let ?g = "g\<lparr>bulk := upd2 (bulk g) zz r 0\<rparr>"
  let ?h = "if outer_contact p zz r then fix_pixel 0.0 zz r ?g
            else if point_contact p zz r then wp_contact_pixel p zz r (fix_pixel 1.0 zz r ?g)
            else next_to_contact p zz r ?g"
  have "undepleted ?h = undepleted g" by simp
  then have "marked fd gf ?h = marked fd gf g" by (rule marked_cong)
  then have "\<not> marked fd gf ?h zz r" using assms by simp
  then have a: "undepleted_pixel fd gf zz r ?h = ?h" by (rule undepleted_pixel_fields(4))
  have b: "undepleted_pixel True gf zz r ?h = ?h" unfolding undepleted_pixel_def by simp
  show ?thesis unfolding wp_boundary_pixel_def Let_def a b ..
qed

lemma wp_boundary_pixel_sets:
  "\<not> marked fd gf g zz r \<Longrightarrow> pixel_set p 0 1 zz r (wp_boundary_pixel p fd gf zz r g)"
  unfolding pixel_set_def wp_boundary_pixel_unmarked by (rule wp_boundary_pixel_own)

lemma wp_boundary_pixel_other:
  "(z', r') \<noteq> (zz, r) \<Longrightarrow>
     bulk (wp_boundary_pixel p fd gf z' r' g) zz r = bulk g zz r \<and>
     v (wp_boundary_pixel p fd gf z' r' g) i zz r = v g i zz r"
  by (auto simp: wp_boundary_pixel_def Let_def)

lemma wp_set_boundaries_pixel:
  assumes "int zz \<le> L p" "int r \<le> R p" "\<not> marked fd gf g zz r"
  shows "pixel_set p 0 1 zz r (wp_set_boundaries p fd gf g)"
proof -
  let ?I = "\<lambda>s. undepleted s = undepleted g"
  let ?g = "for_pixels (L p + 1) (R p + 1) (permittivity_pixel p) g"
  have u: "?I ?g" by (rule for_pixels_undepleted) simp
  have "pixel_set p 0 1 zz r
          (for_pixels (L p + 1) (R p + 1) (wp_boundary_pixel p fd gf) ?g) \<and>
        ?I (for_pixels (L p + 1) (R p + 1) (wp_boundary_pixel p fd gf) ?g)"
  proof (rule for_pixels_pixel[where I = ?I])
    show "?I (wp_boundary_pixel p fd gf z' r' s)" if "?I s" for z' r' s
      using that by simp
    show "pixel_set p 0 1 zz r (wp_boundary_pixel p fd gf zz r s)" if "?I s" for s
    proof (rule wp_boundary_pixel_sets)
      have "marked fd gf s = marked fd gf g" using that by (rule marked_cong)
      then show "\<not> marked fd gf s zz r" using assms(3) by simp
    qed
    show "pixel_set p 0 1 zz r (wp_boundary_pixel p fd gf z' r' s)"
      if "(z', r') \<noteq> (zz, r)" "?I s" "pixel_set p 0 1 zz r s" for z' r' s
    proof -
      have "pixel_set p 0 1 zz r (wp_boundary_pixel p fd gf z' r' s) = pixel_set p 0 1 zz r s"
        by (rule pixel_set_cong) (simp_all add: wp_boundary_pixel_other[OF that(1)])
      then show ?thesis using that(3) by simp
    qed
    show "?I ?g" by (rule u)
    show "int zz < L p + 1" "int r < R p + 1" using assms by simp_all
  qed
  then show ?thesis by (simp add: wp_set_boundaries_def)
qed

lemma wp_store_fields [simp]:
  "bulk (wp_store old new zz r m g) = bulk g"
  "i \<noteq> new \<or> z' \<noteq> zz \<or> r' \<noteq> r \<Longrightarrow> v (wp_store old new zz r m g) i z' r' = v g i z' r'"
  by (auto simp: wp_store_def Let_def)

lemma pinched_fields [simp]:
  "bulk (pinched old zz r g) = bulk g" "v (pinched old zz r g) = v g"
  by (simp_all add: pinched_def Let_def)

lemma wp_pixel_frame:
  assumes "wp_pixel p old new pix g = Inr g'"
  shows "bulk g' = bulk g \<and> (\<forall>i zz r. bulk g zz r < 0 \<longrightarrow> v g' i zz r = v g i zz r)"
proof -
  obtain z0 r0 where pix: "pix = (z0, r0)" by (cases pix)
  consider "bulk g z0 r0 < 0" | "bulk g z0 r0 = 3" | "\<not> bulk g z0 r0 < 0" "bulk g z0 r0 \<noteq> 3"
    by blast
  then show ?thesis
  proof cases
    case 1
    then show ?thesis using assms by (simp add: wp_pixel_def pix)
  next
    case 2
    then show ?thesis using assms by (auto simp: wp_pixel_def pix)
  next
    case 3
    then obtain m where g': "g' = wp_store old new z0 r0 m g"
      using assms by (auto simp: wp_pixel_def pix split: sum.splits prod.splits)
    have "v g' i zz r = v g i zz r" if "bulk g zz r < 0" for i zz r
    proof -
      have "zz \<noteq> z0 \<or> r \<noteq> r0" using that 3 by auto
      then show ?thesis unfolding g' by (intro wp_store_fields(2)) blast
    qed
    then show ?thesis by (simp add: g')
  qed
qed

lemma wp_pinched_pass_frame:
  "bulk (for_pixels nz nr (wp_pinched_pixel old new m) g) = bulk g \<and>
   (\<forall>i zz r. bulk g zz r < 0 \<longrightarrow>
      v (for_pixels nz nr (wp_pinched_pixel old new m) g) i zz r = v g i zz r)"
proof -
  have "bulk (fold (\<lambda>(zz, r). wp_pinched_pixel old new m zz r) xs g) = bulk g \<and>
   (\<forall>i zz r. bulk g zz r < 0 \<longrightarrow>
      v (fold (\<lambda>(zz, r). wp_pinched_pixel old new m zz r) xs g) i zz r = v g i zz r)" for xs
  proof (induction xs arbitrary: g)
    case Nil
    then show ?case by simp
  next
    case (Cons a xs)
    obtain z0 r0 where a: "a = (z0, r0)" by (cases a)
    let ?s = "wp_pinched_pixel old new m z0 r0 g"
    have b: "bulk ?s = bulk g" by (simp add: wp_pinched_pixel_def)
    have vv: "v ?s i zz r = v g i zz r" if "bulk g zz r < 0" for i zz r
    proof (cases "bulk g z0 r0 = 3")
      case True
      then have "zz \<noteq> z0 \<or> r \<noteq> r0" using that by auto
      then show ?thesis using True by (simp add: wp_pinched_pixel_def)
    next
      case False
      then show ?thesis by (simp add: wp_pinched_pixel_def)
    qed
    show ?case using Cons.IH[of ?s] b vv by (simp add: a)
  qed
  then show ?thesis by (simp add: for_pixels_def)
qed

lemma wp_sweep_frame:
  assumes "wp_sweep p old new g = Inr g'"
  shows "bulk g' = bulk g \<and> (\<forall>i zz r. bulk g zz r < 0 \<longrightarrow> v g' i zz r = v g i zz r)"
proof -
  from assms obtain g1 where
    a: "for_each (wp_pixel p old new) (pixels (L p) (R p)) g = Inr g1"
    and b: "g' = (if pinched_sum2 g1 > 0.1
                  then for_pixels (L p) (R p)
                         (wp_pinched_pixel old new (pinched_sum1 g1 / pinched_sum2 g1)) g1
                  else g1)"
    by (auto simp: wp_sweep_def split: sum.splits if_splits)
  have f1: "bulk g1 = bulk g \<and> (\<forall>i zz r. bulk g zz r < 0 \<longrightarrow> v g1 i zz r = v g i zz r)"
    using a by (rule for_each_frame[rotated]) (rule wp_pixel_frame)
  show ?thesis
    unfolding b using f1 wp_pinched_pass_frame[of "L p" "R p" old new _ g1] by simp
qed

lemma wp_relax_frame:
  "wp_relax p n iter old new g = Inr (old', new', g') \<Longrightarrow>
   bulk g' = bulk g \<and> (\<forall>i zz r. bulk g zz r < 0 \<longrightarrow> v g' i zz r = v g i zz r)"
proof (induction n arbitrary: iter old new g)
  case 0
  then show ?case by simp
next
  case (Suc n)
  let ?old = "if old = 0 then 1 else (0::nat)"
  let ?new = "if old = 0 then 0 else (1::nat)"
  let ?g = "g\<lparr>sum_dif := 0.0, max_dif := 0.0, pinched_sum1 := 0.0, pinched_sum2 := 0.0\<rparr>"
  from Suc.prems obtain g1 where sw: "wp_sweep p ?old ?new ?g = Inr g1"
    and rest: "(if max_dif g1 < 0.0000000001 then Inr (?old, ?new, g1)
                else wp_relax p n (Suc iter) ?old ?new g1) = Inr (old', new', g')"
    by (auto simp: Let_def split: sum.splits if_splits)
  have f1: "bulk g1 = bulk g \<and> (\<forall>i zz r. bulk g zz r < 0 \<longrightarrow> v g1 i zz r = v g i zz r)"
    using wp_sweep_frame[OF sw] by simp
  show ?case
  proof (cases "max_dif g1 < 0.0000000001")
    case True
    then have "g' = g1" using rest by simp
    then show ?thesis using f1 by simp
  next
    case False
    then have "wp_relax p n (Suc iter) ?old ?new g1 = Inr (old', new', g')" using rest by simp
    from Suc.IH[OF this] show ?thesis using f1 by simp
  qed
qed

text \<open>
  A pixel marked \<^verbatim>\<open>'*'\<close> in a detector that is not fully depleted is fixed at 1 by the
  boundary loop of the weighting potential, whatever contact it lies on.
\<close>

lemma wp_boundary_pixel_starred:
  assumes "undepleted g (nat (int r * gf)) (nat (int zz * gf)) = CHR ''*''"
  shows "bulk (wp_boundary_pixel p False gf zz r g) zz r = - 1 \<and>
         v (wp_boundary_pixel p False gf zz r g) 0 zz r = 1 \<and>
         v (wp_boundary_pixel p False gf zz r g) 1 zz r = 1"
proof -
  let ?g = "g\<lparr>bulk := upd2 (bulk g) zz r 0\<rparr>"
  let ?h = "if outer_contact p zz r then fix_pixel 0.0 zz r ?g
            else if point_contact p zz r then wp_contact_pixel p zz r (fix_pixel 1.0 zz r ?g)
            else next_to_contact p zz r ?g"
  have "undepleted ?h = undepleted g" by simp
  then have a: "undepleted_pixel False gf zz r ?h = fix_pixel 1.0 zz r ?h"
    using assms by (simp add: undepleted_pixel_def)
  have "wp_boundary_pixel p False gf zz r g = fix_pixel 1.0 zz r ?h"
    unfolding wp_boundary_pixel_def Let_def a ..
  then show ?thesis by simp
qed

lemma wp_set_boundaries_starred:
  assumes "int zz \<le> L p" "int r \<le> R p"
    and "undepleted g (nat (int r * gf)) (nat (int zz * gf)) = CHR ''*''"
  shows "bulk (wp_set_boundaries p False gf g) zz r = - 1 \<and>
         v (wp_set_boundaries p False gf g) 0 zz r = 1 \<and>
         v (wp_set_boundaries p False gf g) 1 zz r = 1"
proof -
  let ?I = "\<lambda>s. undepleted s = undepleted g"
  let ?Q = "\<lambda>s. bulk s zz r = - 1 \<and> v s 0 zz r = 1 \<and> v s 1 zz r = 1"
  let ?g = "for_pixels (L p + 1) (R p + 1) (permittivity_pixel p) g"
  have u: "?I ?g" by (rule for_pixels_undepleted) simp
  have "?Q (for_pixels (L p + 1) (R p + 1) (wp_boundary_pixel p False gf) ?g) \<and>
        ?I (for_pixels (L p + 1) (R p + 1) (wp_boundary_pixel p False gf) ?g)"
  proof (rule for_pixels_pixel[where I = ?I])
    show "?I (wp_boundary_pixel p False gf z' r' s)" if "?I s" for z' r' s
      using that by simp
    show "?Q (wp_boundary_pixel p False gf zz r s)" if "?I s" for s
      by (rule wp_boundary_pixel_starred) (simp add: that assms(3))
    show "?Q (wp_boundary_pixel p False gf z' r' s)"
      if "(z', r') \<noteq> (zz, r)" "?I s" "?Q s" for z' r' s
      using that(3) by (simp add: wp_boundary_pixel_other[OF that(1)])
    show "?I ?g" by (rule u)
    show "int zz < L p + 1" "int r < R p + 1" using assms by simp_all
  qed
  then show ?thesis by (simp add: wp_set_boundaries_def)
qed

lemma electrodes_hold_wp_relax:
  assumes "wp_relax p n iter old new (wp_set_boundaries p fd gf g0) = Inr (old', new', g)"
  shows "electrodes_hold p 0 1 (marked fd gf g0) (pinch_marked fd gf g0) g"
proof -
  let ?b = "wp_set_boundaries p fd gf g0"
  have f: "\<forall>i zz r. bulk ?b zz r < 0 \<longrightarrow> v g i zz r = v ?b i zz r"
    using wp_relax_frame[OF assms] by blast
  have un: "(outer_contact p zz r \<longrightarrow> v g 0 zz r = 0 \<and> v g 1 zz r = 0) \<and>
       (point_contact p zz r \<and> \<not> outer_contact p zz r \<and> \<not> contact_edge p zz r \<longrightarrow>
          v g 0 zz r = 1 \<and> v g 1 zz r = 1)"
    if "int zz \<le> L p" "int r \<le> R p" "\<not> marked fd gf g0 zz r" for zz r
  proof -
    have ps: "pixel_set p 0 1 zz r ?b" using wp_set_boundaries_pixel that by simp
    show ?thesis by (rule fixed_pixels_hold[OF ps f])
  qed
  have st: "v g 0 zz r = 1 \<and> v g 1 zz r = 1"
    if rng: "int zz \<le> L p" "int r \<le> R p" and m: "marked fd gf g0 zz r"
      and np: "\<not> pinch_marked fd gf g0 zz r" for zz r
  proof -
    have fd: "fd = False"
      and s: "undepleted g0 (nat (int r * gf)) (nat (int zz * gf)) = CHR ''*''"
      using m np by (auto simp: marked_def pinch_marked_def)
    have "bulk ?b zz r = - 1 \<and> v ?b 0 zz r = 1 \<and> v ?b 1 zz r = 1"
      unfolding fd by (rule wp_set_boundaries_starred[OF rng s])
    then show ?thesis using f by simp
  qed
  show ?thesis
    unfolding electrodes_hold_def using un st by blast
qed

lemma tag_set_cong:
  "bulk g' zz r = bulk g zz r \<Longrightarrow> tag_set p a zz r g' = tag_set p a zz r g"
  by (simp add: tag_set_def)

lemma boundary_pixel_tag: "tag_set p {- 1, 0, 1, 2} zz r (boundary_pixel p zz r g)"
  by (simp add: tag_set_def boundary_pixel_def Let_def)

lemma wp_boundary_pixel_tag: "tag_set p {- 1, 0, 1, 2, 3} zz r (wp_boundary_pixel p fd gf zz r g)"
  by (simp add: tag_set_def wp_boundary_pixel_def Let_def undepleted_pixel_def)

lemma set_boundaries_tag:
  assumes "int zz \<le> L p" "int r \<le> R p"
  shows "tag_set p {- 1, 0, 1, 2} zz r (set_boundaries p g)"
proof -
  have "tag_set p {- 1, 0, 1, 2} zz r
          (for_pixels (L p + 1) (R p + 1) (boundary_pixel p) s) \<and> True" for s
  proof (rule for_pixels_pixel[where I = "\<lambda>_. True"])
    show "tag_set p {- 1, 0, 1, 2} zz r (boundary_pixel p zz r s)" for s
      by (rule boundary_pixel_tag)
    show "tag_set p {- 1, 0, 1, 2} zz r (boundary_pixel p z' r' s)"
      if "(z', r') \<noteq> (zz, r)" "tag_set p {- 1, 0, 1, 2} zz r s" for z' r' s
    proof -
      have "tag_set p {- 1, 0, 1, 2} zz r (boundary_pixel p z' r' s)
            = tag_set p {- 1, 0, 1, 2} zz r s"
        by (rule tag_set_cong) (simp add: boundary_pixel_other[OF that(1)])
      then show ?thesis using that(2) by simp
    qed
    show "int zz < L p + 1" "int r < R p + 1" using assms by simp_all
  qed simp_all
  then show ?thesis by (simp add: set_boundaries_def)
qed

lemma wp_set_boundaries_tag:
  assumes "int zz \<le> L p" "int r \<le> R p"
  shows "tag_set p {- 1, 0, 1, 2, 3} zz r (wp_set_boundaries p fd gf g)"
proof -
  have "tag_set p {- 1, 0, 1, 2, 3} zz r
          (for_pixels (L p + 1) (R p + 1) (wp_boundary_pixel p fd gf) s) \<and> True" for s
  proof (rule for_pixels_pixel[where I = "\<lambda>_. True"])
    show "tag_set p {- 1, 0, 1, 2, 3} zz r (wp_boundary_pixel p fd gf zz r s)" for s
      by (rule wp_boundary_pixel_tag)
    show "tag_set p {- 1, 0, 1, 2, 3} zz r (wp_boundary_pixel p fd gf z' r' s)"
      if "(z', r') \<noteq> (zz, r)" "tag_set p {- 1, 0, 1, 2, 3} zz r s" for z' r' s
    proof -
      have "tag_set p {- 1, 0, 1, 2, 3} zz r (wp_boundary_pixel p fd gf z' r' s)
            = tag_set p {- 1, 0, 1, 2, 3} zz r s"
        by (rule tag_set_cong) (simp add: wp_boundary_pixel_other[OF that(1)])
      then show ?thesis using that(2) by simp
    qed
    show "int zz < L p + 1" "int r < R p + 1" using assms by simp_all
  qed simp_all
  then show ?thesis by (simp add: wp_set_boundaries_def)
qed

lemma tag_set_tags_ok:
  assumes geo: "geometry_ok p"
    and tags: "\<And>zz r. int zz \<le> L p \<Longrightarrow> int r \<le> R p \<Longrightarrow> tag_set p a zz r g"
  shows "tags_ok p a g"
  unfolding tags_ok_def
proof (intro allI impI conjI)
  fix zz r assume rng: "int zz \<le> L p \<and> int r \<le> R p"
  then have t: "tag_set p a zz r g" using tags by simp
  show "bulk g zz r \<in> a" using t by (simp add: tag_set_def)
  show "0 < r" if "bulk g zz r = 1"
  proof -
    have "(int r = RC p \<and> dRC p < - 0.05) \<or> int r = RC p + 1"
      using t that by (simp add: tag_set_def)
    then show ?thesis using geo unfolding geometry_ok_def by (auto split: if_splits)
  qed
  show "0 < zz" if "bulk g zz r = 2"
  proof -
    have "(int zz = LC p \<and> dLC p < - 0.05) \<or> int zz = LC p + 1"
      using t that by (simp add: tag_set_def)
    then show ?thesis using geo unfolding geometry_ok_def by (auto split: if_splits)
  qed
qed

lemma tags_okD:
  assumes "tags_ok p a g" "int zz \<le> L p" "int r \<le> R p"
  shows "bulk g zz r \<in> a" "bulk g zz r = 1 \<Longrightarrow> 0 < r" "bulk g zz r = 2 \<Longrightarrow> 0 < zz"
  using assms unfolding tags_ok_def by blast+

lemma tags_ok_cong: "bulk g' = bulk g \<Longrightarrow> tags_ok p a g' = tags_ok p a g"
  unfolding tags_ok_def by simp

lemma kernel_ok:
  assumes "tags_ok p a g" "int zz < L p" "int r < R p" "bulk g zz r \<in> {0, 1, 2}"
  shows "\<exists>acc. kernel p old zz r g = Inr acc"
proof -
  have rng: "int zz \<le> L p" "int r \<le> R p" "int (zz - 1) \<le> L p"
    using assms(2,3) by linarith+
  consider "bulk g zz r = 0" | "bulk g zz r = 1" | "bulk g zz r = 2"
    using assms(4) by blast
  then show ?thesis
  proof cases
    case 1
    then have "kernel p old zz r g = Inr (kernel_bulk old zz r g)" by (simp add: kernel_def)
    then show ?thesis by blast
  next
    case 2
    then have "0 < r" using tags_okD(2)[OF assms(1) rng(1,2)] by simp
    then have "kernel p old zz r g = Inr (kernel_edge_r old zz r g)"
      using 2 by (simp add: kernel_def)
    then show ?thesis by blast
  next
    case 3
    then have z: "0 < zz" using tags_okD(3)[OF assms(1) rng(1,2)] by simp
    have "\<not> (bulk g (zz - 1) r = 1 \<and> r = 0)"
      using tags_okD(2)[OF assms(1) rng(3,2)] by blast
    then have "kernel p old zz r g = Inr (kernel_edge_z p old zz r g)"
      using 3 z by (simp add: kernel_def)
    then show ?thesis by blast
  qed
qed

lemma for_each_ok:
  assumes step: "\<And>a s. a \<in> set xs \<Longrightarrow> I s \<Longrightarrow> \<exists>s'. body a s = Inr s' \<and> I s'"
  shows "I s \<Longrightarrow> \<exists>s'. for_each body xs s = Inr s' \<and> I s'"
  using step
proof (induction xs arbitrary: s)
  case Nil
  then show ?case by simp
next
  case (Cons a xs)
  obtain s1 where s1: "body a s = Inr s1" "I s1"
    using Cons.prems(2)[of a s] Cons.prems(1) by auto
  have "\<exists>s'. for_each body xs s1 = Inr s' \<and> I s'"
    using Cons.IH[OF s1(2)] Cons.prems(2) by auto
  then show ?case using s1(1) by simp
qed

lemma poisson_sweep_ok:
  assumes "tags_ok p {- 1, 0, 1, 2} g"
  shows "\<exists>g'. poisson_sweep p old new g = Inr g' \<and> bulk g' = bulk g"
  unfolding poisson_sweep_def
proof (rule for_each_ok[where I = "\<lambda>s. bulk s = bulk g"])
  show "bulk g = bulk g" ..
  fix a and s :: grid
  assume a: "a \<in> set (pixels (L p) (R p))" and s: "bulk s = bulk g"
  obtain zz r where azr: "a = (zz, r)" by (cases a)
  have rng: "int zz < L p" "int r < R p" using a by (simp_all add: azr pixels_mem)
  have t: "tags_ok p {- 1, 0, 1, 2} s" using assms tags_ok_cong[OF s] by simp
  show "\<exists>s'. poisson_pixel p old new a s = Inr s' \<and> bulk s' = bulk g"
  proof (cases "bulk s zz r < 0")
    case True
    then show ?thesis using s by (simp add: poisson_pixel_def azr)
  next
    case False
    have "bulk s zz r \<in> {- 1, 0, 1, 2}"
      by (rule tags_okD(1)[OF t]) (use rng in linarith)+
    then have "bulk s zz r \<in> {0, 1, 2}" using False by auto
    from kernel_ok[OF t rng this] obtain acc where "kernel p old zz r s = Inr acc" by blast
    then show ?thesis using False s by (simp add: poisson_pixel_def azr)
  qed
qed

lemma poisson_relax_ok:
  "tags_ok p {- 1, 0, 1, 2} g \<Longrightarrow> \<exists>old' new' g'. poisson_relax p n old new g = Inr (old', new', g')"
proof (induction n arbitrary: old new g)
  case 0
  then show ?case by simp
next
  case (Suc n)
  let ?old = "if old = 0 then 1 else (0::nat)"
  let ?new = "if old = 0 then 0 else (1::nat)"
  let ?g = "g\<lparr>sum_dif := 0.0, max_dif := 0.0, bubble_volts := 0.0\<rparr>"
  have "tags_ok p {- 1, 0, 1, 2} ?g"
    using Suc.prems tags_ok_cong[of ?g g] by simp
  from poisson_sweep_ok[OF this] obtain g1 where
    sw: "poisson_sweep p ?old ?new ?g = Inr g1" and b: "bulk g1 = bulk ?g" by blast
  have "tags_ok p {- 1, 0, 1, 2} g1"
    using Suc.prems tags_ok_cong[of g1 g] b by simp
  from Suc.IH[OF this] obtain o' n' g' where
    "poisson_relax p n ?old ?new g1 = Inr (o', n', g')" by blast
  then show ?case using sw by (auto simp: Let_def)
qed

lemma pixels_eval: "pixels 3 3 = [(0,0),(0,1),(0,2),(1,0),(1,1),(1,2),(2,0),(2,1),(2,2)]"
  "pixels 2 2 = [(0,0),(0,1),(1,0),(1,1)]"
  by (simp_all add: pixels_def upt_rec)

lemma for_each_pixel:
  assumes inv: "\<And>a s s'. I s \<Longrightarrow> body a s = Inr s' \<Longrightarrow> I s'"
    and est: "\<And>s s'. I s \<Longrightarrow> body x s = Inr s' \<Longrightarrow> Q s'"
    and pres: "\<And>a s s'. a \<noteq> x \<Longrightarrow> I s \<Longrightarrow> Q s \<Longrightarrow> body a s = Inr s' \<Longrightarrow> Q s'"
  shows "I s \<Longrightarrow> Q s \<or> x \<in> set xs \<Longrightarrow> for_each body xs s = Inr s' \<Longrightarrow> Q s' \<and> I s'"
proof (induction xs arbitrary: s)
  case Nil
  then show ?case by simp
next
  case (Cons a xs)
  from Cons.prems(3) obtain s1 where s1: "body a s = Inr s1" and r: "for_each body xs s1 = Inr s'"
    by (auto split: sum.splits)
  have i: "I s1" using inv[OF Cons.prems(1) s1] .
  have "Q s1 \<or> x \<in> set xs"
  proof (cases "a = x")
    case True
    then show ?thesis using est[OF Cons.prems(1)] s1 by blast
  next
    case False
    then show ?thesis using pres[OF False Cons.prems(1) _ s1] Cons.prems(2) by auto
  qed
  then show ?case using Cons.IH[OF i _ r] by simp
qed

lemma clamp_nonneg:
  assumes "0 \<le> bv"
  shows "0 \<le> fst (clamp v_new mn bv)" "0 \<le> fst (snd (clamp v_new mn bv))"
  using assms by (auto simp: clamp_def Let_def)

lemma poisson_update_value:
  "v (poisson_update p old new zz r (v_sum, eps_sum, mn) g) new zz r =
     fst (clamp (v_sum / eps_sum + vfraction g zz r * (N p + MM p * real zz) * e_over_E p)
            mn (bubble_volts g))"
  "bubble_volts (poisson_update p old new zz r (v_sum, eps_sum, mn) g) =
     fst (snd (clamp (v_sum / eps_sum + vfraction g zz r * (N p + MM p * real zz) * e_over_E p)
            mn (bubble_volts g)))"
  by (simp_all add: poisson_update_def Let_def split: prod.splits)

lemma poisson_update_mark:
  "undepleted (poisson_update p old new zz r (v_sum, eps_sum, mn) g) r zz =
     (if vfraction g zz r > 0.45 then
        (if snd (snd (clamp (v_sum / eps_sum +
                     vfraction g zz r * (N p + MM p * real zz) * e_over_E p) mn (bubble_volts g)))
         then CHR ''*'' else CHR ''.'')
      else undepleted g r zz)"
  by (simp add: poisson_update_def Let_def split: prod.splits)

lemma poisson_update_bubble_nonneg:
  "0 \<le> bubble_volts g \<Longrightarrow> 0 \<le> bubble_volts (poisson_update p old new zz r acc g)"
  by (cases acc) (simp add: poisson_update_value(2) clamp_nonneg(2))

lemma poisson_update_nonneg:
  "0 \<le> bubble_volts g \<Longrightarrow> 0 \<le> v (poisson_update p old new zz r acc g) new zz r"
  by (cases acc) (simp add: poisson_update_value(1) clamp_nonneg(1))

lemma poisson_sweep_nonneg:
  assumes sw: "poisson_sweep p old new g = Inr g'"
    and bv: "0 \<le> bubble_volts g"
    and rng: "int zz < L p" "int r < R p"
    and nf: "0 \<le> bulk g zz r"
  shows "0 \<le> v g' new zz r"
proof -
  let ?I = "\<lambda>s. bulk s = bulk g \<and> 0 \<le> bubble_volts s"
  have "0 \<le> v g' new zz r \<and> ?I g'"
  proof (rule for_each_pixel[where I = ?I and x = "(zz, r)" and body = "poisson_pixel p old new"
        and xs = "pixels (L p) (R p)" and s = g])
    show "?I s'" if i: "?I s" and st: "poisson_pixel p old new a s = Inr s'" for a s s'
    proof -
      obtain z0 r0 where a: "a = (z0, r0)" by (cases a)
      show ?thesis
      proof (cases "bulk s z0 r0 < 0")
        case True
        then show ?thesis using i st by (simp add: poisson_pixel_def a)
      next
        case False
        then obtain acc where "s' = poisson_update p old new z0 r0 acc s"
          using st by (auto simp: poisson_pixel_def a split: sum.splits)
        then show ?thesis using i poisson_update_bubble_nonneg by simp
      qed
    qed
    show "0 \<le> v s' new zz r"
      if i: "?I s" and st: "poisson_pixel p old new (zz, r) s = Inr s'" for s s'
    proof -
      have "\<not> bulk s zz r < 0" using i nf by simp
      then obtain acc where "s' = poisson_update p old new zz r acc s"
        using st by (auto simp: poisson_pixel_def split: sum.splits)
      then show ?thesis using i poisson_update_nonneg by simp
    qed
    show "0 \<le> v s' new zz r"
      if ne: "a \<noteq> (zz, r)" and i: "?I s" and q: "0 \<le> v s new zz r"
        and st: "poisson_pixel p old new a s = Inr s'"
      for a s s'
    proof -
      obtain z0 r0 where a: "a = (z0, r0)" by (cases a)
      show ?thesis
      proof (cases "bulk s z0 r0 < 0")
        case True
        then show ?thesis using q st by (simp add: poisson_pixel_def a)
      next
        case False
        then obtain acc where s': "s' = poisson_update p old new z0 r0 acc s"
          using st by (auto simp: poisson_pixel_def a split: sum.splits)
        have "zz \<noteq> z0 \<or> r \<noteq> r0" using ne a by auto
        then have "v s' new zz r = v s new zz r"
          unfolding s' by (intro poisson_update_fields(2)) blast
        then show ?thesis using q by simp
      qed
    qed
    show "?I g" using bv by simp
    show "0 \<le> v g new zz r \<or> (zz, r) \<in> set (pixels (L p) (R p))"
      using rng by (simp add: pixels_mem)
    show "for_each (poisson_pixel p old new) (pixels (L p) (R p)) g = Inr g'"
      using sw by (simp add: poisson_sweep_def)
  qed
  then show ?thesis by blast
qed

lemma poisson_relax_plane:
  "poisson_relax p (Suc n) old new g = Inr (old', new', g') \<Longrightarrow> new' = 0 \<or> new' = 1"
proof (induction n arbitrary: old new g)
  case 0
  then show ?case by (auto simp: Let_def split: sum.splits if_splits)
next
  case (Suc n)
  let ?old = "if old = 0 then 1 else (0::nat)"
  let ?new = "if old = 0 then 0 else (1::nat)"
  let ?g = "g\<lparr>sum_dif := 0.0, max_dif := 0.0, bubble_volts := 0.0\<rparr>"
  from Suc.prems obtain g1 where sw: "poisson_sweep p ?old ?new ?g = Inr g1"
    and rest: "(if max_dif g1 < 0.000000001 then Inr (?old, ?new, g1)
            else poisson_relax p (Suc n) ?old ?new g1) = Inr (old', new', g')"
    by (auto simp: Let_def split: sum.splits if_splits)
  show ?case
  proof (cases "max_dif g1 < 0.000000001")
    case True
    then show ?thesis using rest by (auto split: if_splits)
  next
    case False
    then have "poisson_relax p (Suc n) ?old ?new g1 = Inr (old', new', g')" using rest by simp
    then show ?thesis by (rule Suc.IH)
  qed
qed

lemma poisson_relax_nonneg:
  assumes "poisson_relax p (Suc n) old new g = Inr (old', new', g')"
    and "int zz < L p" "int r < R p" "0 \<le> bulk g zz r"
  shows "0 \<le> v g' new' zz r"
  using assms(1,4)
proof (induction n arbitrary: old new g)
  case 0
  let ?old = "if old = 0 then 1 else (0::nat)"
  let ?new = "if old = 0 then 0 else (1::nat)"
  let ?g = "g\<lparr>sum_dif := 0.0, max_dif := 0.0, bubble_volts := 0.0\<rparr>"
  from "0.prems"(1) obtain g1 where sw: "poisson_sweep p ?old ?new ?g = Inr g1"
    and res: "old' = ?old" "new' = ?new" "g' = g1"
    by (auto simp: Let_def split: sum.splits if_splits)
  have "0 \<le> v g1 ?new zz r"
    by (rule poisson_sweep_nonneg[OF sw _ assms(2,3)]) (use "0.prems"(2) in simp_all)
  then show ?case unfolding res by simp
next
  case (Suc n)
  let ?old = "if old = 0 then 1 else (0::nat)"
  let ?new = "if old = 0 then 0 else (1::nat)"
  let ?g = "g\<lparr>sum_dif := 0.0, max_dif := 0.0, bubble_volts := 0.0\<rparr>"
  from Suc.prems(1) obtain g1 where sw: "poisson_sweep p ?old ?new ?g = Inr g1"
    and rest: "(if max_dif g1 < 0.000000001 then Inr (?old, ?new, g1)
                else poisson_relax p (Suc n) ?old ?new g1) = Inr (old', new', g')"
    by (auto simp: Let_def split: sum.splits if_splits)
  show ?case
  proof (cases "max_dif g1 < 0.000000001")
    case True
    then have res: "new' = ?new" "g' = g1" using rest by simp_all
    have "0 \<le> v g1 ?new zz r"
      by (rule poisson_sweep_nonneg[OF sw _ assms(2,3)]) (use Suc.prems(2) in simp_all)
    then show ?thesis unfolding res by simp
  next
    case False
    then have r: "poisson_relax p (Suc n) ?old ?new g1 = Inr (old', new', g')"
      using rest by simp
    have "bulk g1 = bulk g" using poisson_sweep_frame[OF sw] by simp
    then have "0 \<le> bulk g1 zz r" using Suc.prems(2) by simp
    from Suc.IH[OF r this] show ?thesis .
  qed
qed

lemma poisson_relax_all_nonneg:
  assumes rel: "poisson_relax p (Suc n) old new (set_boundaries p g0) = Inr (old', new', g')"
    and bv: "0 \<le> BV p"
    and rng: "int zz \<le> L p" "int r \<le> R p"
  shows "0 \<le> v g' 0 zz r \<or> 0 \<le> bulk (set_boundaries p g0) zz r" "0 \<le> v g' new' zz r"
proof -
  let ?g = "set_boundaries p g0"
  have ps: "pixel_set p (BV p) 0 zz r ?g" using set_boundaries_pixel[OF rng] .
  have fixed: "0 \<le> v g' 0 zz r \<and> 0 \<le> v g' 1 zz r" if "bulk ?g zz r < 0"
  proof -
    have fr: "v g' i zz r = v ?g i zz r" for i
      using poisson_relax_frame[OF rel] that by blast
    have "(v ?g 0 zz r = BV p \<and> v ?g 1 zz r = BV p) \<or> (v ?g 0 zz r = 0 \<and> v ?g 1 zz r = 0)"
      using ps that unfolding pixel_set_def by blast
    then show ?thesis using fr bv by auto
  qed
  have pl: "new' = 0 \<or> new' = 1"
    using rel by (rule poisson_relax_plane)
  show "0 \<le> v g' 0 zz r \<or> 0 \<le> bulk ?g zz r" using fixed by fastforce
  show "0 \<le> v g' new' zz r"
  proof (cases "bulk ?g zz r < 0")
    case True
    then show ?thesis using fixed pl by auto
  next
    case False
    then have nf: "0 \<le> bulk ?g zz r" by simp
    then have "\<not> outer_contact p zz r" using ps unfolding pixel_set_def by blast
    then have "int zz \<noteq> L p" "int r \<noteq> R p" by (simp_all add: outer_contact_def)
    then have "int zz < L p" "int r < R p" using rng by simp_all
    from poisson_relax_nonneg[OF rel this nf] show ?thesis .
  qed
qed

lemma wp_sweep_ok:
  assumes "tags_ok p {- 1, 0, 1, 2, 3} g"
  shows "\<exists>g'. wp_sweep p old new g = Inr g' \<and> bulk g' = bulk g"
proof -
  have "\<exists>g1. for_each (wp_pixel p old new) (pixels (L p) (R p)) g = Inr g1 \<and> bulk g1 = bulk g"
  proof (rule for_each_ok[where I = "\<lambda>s. bulk s = bulk g"])
    show "bulk g = bulk g" ..
    fix a and s :: grid
    assume a: "a \<in> set (pixels (L p) (R p))" and s: "bulk s = bulk g"
    obtain zz r where azr: "a = (zz, r)" by (cases a)
    have rng: "int zz < L p" "int r < R p" using a by (simp_all add: azr pixels_mem)
    have t: "tags_ok p {- 1, 0, 1, 2, 3} s" using assms tags_ok_cong[OF s] by simp
    have al: "bulk s zz r \<in> {- 1, 0, 1, 2, 3}"
      by (rule tags_okD(1)[OF t]) (use rng in linarith)+
    consider "bulk s zz r < 0" | "bulk s zz r = 3" | "bulk s zz r \<in> {0, 1, 2}"
      using al by auto
    then show "\<exists>s'. wp_pixel p old new a s = Inr s' \<and> bulk s' = bulk g"
    proof cases
      case 1
      then show ?thesis using s by (simp add: wp_pixel_def azr)
    next
      case 2
      then show ?thesis using s by (simp add: wp_pixel_def azr)
    next
      case 3
      from kernel_ok[OF t rng this] obtain acc where k: "kernel p old zz r s = Inr acc" by blast
      have "\<not> bulk s zz r < 0" "bulk s zz r \<noteq> 3" using 3 by auto
      then show ?thesis using s k by (cases acc) (simp add: wp_pixel_def azr)
    qed
  qed
  then obtain g1 where
    a: "for_each (wp_pixel p old new) (pixels (L p) (R p)) g = Inr g1" and b: "bulk g1 = bulk g"
    by blast
  show ?thesis
    using a b wp_pinched_pass_frame[of "L p" "R p" old new _ g1]
    by (simp add: wp_sweep_def)
qed

lemma wp_relax_ok:
  assumes "5 \<le> L p" "5 \<le> R p"
  shows "tags_ok p {- 1, 0, 1, 2, 3} g \<Longrightarrow>
           \<exists>old' new' g'. wp_relax p n iter old new g = Inr (old', new', g')"
proof (induction n arbitrary: iter old new g)
  case 0
  then show ?case by simp
next
  case (Suc n)
  let ?old = "if old = 0 then 1 else (0::nat)"
  let ?new = "if old = 0 then 0 else (1::nat)"
  let ?g = "g\<lparr>sum_dif := 0.0, max_dif := 0.0, pinched_sum1 := 0.0, pinched_sum2 := 0.0\<rparr>"
  have "tags_ok p {- 1, 0, 1, 2, 3} ?g"
    using Suc.prems tags_ok_cong[of ?g g] by simp
  from wp_sweep_ok[OF this] obtain g1 where
    sw: "wp_sweep p ?old ?new ?g = Inr g1" and b: "bulk g1 = bulk ?g" by blast
  have "tags_ok p {- 1, 0, 1, 2, 3} g1"
    using Suc.prems tags_ok_cong[of g1 g] b by simp
  from Suc.IH[OF this] obtain o' n' g' where
    "wp_relax p n (Suc iter) ?old ?new g1 = Inr (o', n', g')" by blast
  then show ?case using sw assms by (auto simp: Let_def)
qed

text \<open>
  On a grid with fewer than five steps in \<open>z\<close> or in \<open>r\<close>, the first iteration of the
  weighting potential does not get past its progress report.
\<close>

lemma wp_relax_small_grid:
  "L p < 5 \<or> R p < 5 \<Longrightarrow> wp_relax p (Suc n) 0 old new g \<noteq> Inr res"
  by (auto simp: Let_def reported_def split: sum.splits)

lemma relax_returns:
  assumes "geometry_ok p"
  shows "\<exists>old' new' g. poisson_relax p n old new (set_boundaries p g0) = Inr (old', new', g)"
    and "5 \<le> L p \<Longrightarrow> 5 \<le> R p \<Longrightarrow>
         \<exists>old' new' g. wp_relax p n iter old new (wp_set_boundaries p fd gf g0)
                         = Inr (old', new', g)"
proof -
  have "tags_ok p {- 1, 0, 1, 2} (set_boundaries p g0)"
    by (rule tag_set_tags_ok[OF assms]) (rule set_boundaries_tag)
  then show "\<exists>old' new' g. poisson_relax p n old new (set_boundaries p g0) = Inr (old', new', g)"
    by (rule poisson_relax_ok)
  have "tags_ok p {- 1, 0, 1, 2, 3} (wp_set_boundaries p fd gf g0)"
    by (rule tag_set_tags_ok[OF assms]) (rule wp_set_boundaries_tag)
  then show "\<exists>old' new' g. wp_relax p n iter old new (wp_set_boundaries p fd gf g0)
                         = Inr (old', new', g)"
    if "5 \<le> L p" "5 \<le> R p"
    by (rule wp_relax_ok[OF that])
qed

subsection \<open>The electrodes during the relaxation\<close>

text \<open>
  C1, as the code has it. Whatever the number of iterations, the planes they started
  from and the grid before the boundary loop, when a relaxation loop returns:
  \<^item> every pixel of the outer contact (\<open>z = L\<close>, \<open>r = R\<close>, the taper, the wrap-around) holds,
    in both planes, \<open>BV\<close> after the Poisson loop and 0 after the weighting loop; in the
    weighting loop unless the pixel was marked \<^verbatim>\<open>'*'\<close> or \<^verbatim>\<open>'B'\<close> in a detector that is not
    fully depleted (lines 855-863 overwrite what lines 821-828 set);
  \<^item> every pixel of the point contact that is not also on the outer contact and is not
    an edge pixel of the contact (\<open>r = RC\<close> with \<open>dRC < -0.05\<close>, or \<open>z = LC\<close> with
    \<open>dLC < -0.05\<close>) holds 0 after the Poisson loop and 1 after the weighting loop; in the
    weighting loop unless the pixel was marked \<^verbatim>\<open>'B'\<close> in a detector that is not fully
    depleted (a pixel marked \<^verbatim>\<open>'*'\<close> is fixed at 1 like the contact).

  This is \<open>electrodes_hold\<close>. The loops return after any number of iterations, so the
  property holds at every iteration. Under \<open>geometry_ok\<close> the Poisson loop does return,
  with no undefined \<^verbatim>\<open>bulk\<close> value and no read outside the arrays, and so does the
  weighting loop on a grid of at least five steps in \<open>z\<close> and in \<open>r\<close>, where the read of
  its progress report is inside the array (third conjunct).
\<close>

theorem electrodes_hold_every_iteration:
  "(poisson_relax p n old new (set_boundaries p g0) = Inr (old', new', g) \<longrightarrow>
      electrodes_hold p (BV p) 0 (\<lambda>_ _. False) (\<lambda>_ _. False) g) \<and>
   (wp_relax p n iter old new (wp_set_boundaries p fd gf g0) = Inr (old', new', g) \<longrightarrow>
      electrodes_hold p 0 1 (marked fd gf g0) (pinch_marked fd gf g0) g) \<and>
   (geometry_ok p \<longrightarrow>
      (\<exists>old' new' g. poisson_relax p n old new (set_boundaries p g0) = Inr (old', new', g)) \<and>
      (5 \<le> L p \<and> 5 \<le> R p \<longrightarrow>
         (\<exists>old' new' g. wp_relax p n iter old new (wp_set_boundaries p fd gf g0)
                         = Inr (old', new', g))))"
proof (intro conjI impI)
  assume "poisson_relax p n old new (set_boundaries p g0) = Inr (old', new', g)"
  then show "electrodes_hold p (BV p) 0 (\<lambda>_ _. False) (\<lambda>_ _. False) g"
    by (rule electrodes_hold_poisson_relax)
next
  assume "wp_relax p n iter old new (wp_set_boundaries p fd gf g0) = Inr (old', new', g)"
  then show "electrodes_hold p 0 1 (marked fd gf g0) (pinch_marked fd gf g0) g"
    by (rule electrodes_hold_wp_relax)
next
  assume "geometry_ok p"
  then show "\<exists>old' new' g. poisson_relax p n old new (set_boundaries p g0) = Inr (old', new', g)"
    by (rule relax_returns(1))
next
  assume "geometry_ok p" and "5 \<le> L p \<and> 5 \<le> R p"
  then show "\<exists>old' new' g.
      wp_relax p n iter old new (wp_set_boundaries p fd gf g0) = Inr (old', new', g)"
    using relax_returns(2) by blast
qed

text \<open>
  The theorem for three iterations of each loop. The Poisson loop on the 2 by 2 grid
  \<open>tiny_level\<close>: the outer pixels \<open>(2,0)\<close>, \<open>(1,2)\<close>, \<open>(0,2)\<close> and the contact pixel \<open>(0,0)\<close>.
  The weighting loop on the 5 by 5 grid \<open>wide_level\<close>, for a detector that is not fully
  depleted and whose contact pixel \<open>(0,0)\<close> is marked \<^verbatim>\<open>'*'\<close>: the outer pixels \<open>(5,0)\<close>,
  \<open>(1,5)\<close>, \<open>(0,5)\<close> and that contact pixel.
\<close>

theorem electrodes_hold_witness:
  "geometry_ok tiny_level \<and> geometry_ok wide_level \<and> 5 \<le> L wide_level \<and> 5 \<le> R wide_level \<and>
   (\<exists>old' new' g. poisson_relax tiny_level 3 1 0 (set_boundaries tiny_level zero_grid)
                    = Inr (old', new', g) \<and>
      v g 0 2 0 = 136 \<and> v g 1 2 0 = 136 \<and> v g 0 1 2 = 136 \<and> v g 1 0 2 = 136 \<and>
      v g 0 0 0 = 0 \<and> v g 1 0 0 = 0) \<and>
   (\<exists>old' new' g. wp_relax wide_level 3 0 1 0 (wp_set_boundaries wide_level False 1 starred_grid)
                    = Inr (old', new', g) \<and>
      v g 0 5 0 = 0 \<and> v g 1 5 0 = 0 \<and> v g 0 1 5 = 0 \<and> v g 1 0 5 = 0 \<and>
      v g 0 0 0 = 1 \<and> v g 1 0 0 = 1)"
proof -
  have geo: "geometry_ok tiny_level" "geometry_ok wide_level"
    "5 \<le> L wide_level \<and> 5 \<le> R wide_level"
    by (simp_all add: geometry_ok_def tiny_level_def wide_level_def)
  have o: "outer_contact tiny_level 2 0" "outer_contact tiny_level 1 2" "outer_contact tiny_level 0 2"
    and c: "point_contact tiny_level 0 0" "\<not> outer_contact tiny_level 0 0"
      "\<not> contact_edge tiny_level 0 0"
    and rng: "int 2 \<le> L tiny_level" "int 0 \<le> R tiny_level" "int 1 \<le> L tiny_level"
      "int 2 \<le> R tiny_level" "int 0 \<le> L tiny_level"
    by (simp_all add: outer_contact_def point_contact_def contact_edge_def tiny_level_def)
  have ow: "outer_contact wide_level 5 0" "outer_contact wide_level 1 5"
      "outer_contact wide_level 0 5"
    and cw: "point_contact wide_level 0 0" "\<not> outer_contact wide_level 0 0"
      "\<not> contact_edge wide_level 0 0"
    and rngw: "int 5 \<le> L wide_level" "int 0 \<le> R wide_level" "int 1 \<le> L wide_level"
      "int 5 \<le> R wide_level" "int 0 \<le> L wide_level"
    and um: "\<not> marked False 1 starred_grid 5 0" "\<not> marked False 1 starred_grid 1 5"
      "\<not> marked False 1 starred_grid 0 5" "\<not> pinch_marked False 1 starred_grid 0 0"
    by (simp_all add: outer_contact_def point_contact_def contact_edge_def wide_level_def
        marked_def pinch_marked_def starred_grid_def zero_grid_def)
  from electrodes_hold_every_iteration[of tiny_level 3 1 0 zero_grid] geo(1) obtain o1 n1 g1 where
    p1: "poisson_relax tiny_level 3 1 0 (set_boundaries tiny_level zero_grid) = Inr (o1, n1, g1)"
    by blast
  from electrodes_hold_every_iteration[where p = wide_level and n = 3 and old = 1 and new = 0
      and ?g0.0 = starred_grid and iter = 0 and fd = False and gf = 1] geo(2,3)
  obtain o2 n2 g2 where
    p2: "wp_relax wide_level 3 0 1 0 (wp_set_boundaries wide_level False 1 starred_grid)
         = Inr (o2, n2, g2)"
    by blast
  have h1: "electrodes_hold tiny_level (BV tiny_level) 0 (\<lambda>_ _. False) (\<lambda>_ _. False) g1"
    using electrodes_hold_every_iteration[of tiny_level 3 1 0 zero_grid o1 n1 g1] p1 by blast
  have h2: "electrodes_hold wide_level 0 1 (marked False 1 starred_grid)
              (pinch_marked False 1 starred_grid) g2"
    using electrodes_hold_every_iteration[where p = wide_level and n = 3 and old = 1 and new = 0
        and ?g0.0 = starred_grid and iter = 0 and fd = False and gf = 1 and old' = o2
        and new' = n2 and g = g2]
      p2
    by blast
  have bv: "BV tiny_level = 136" by (simp add: tiny_level_def)
  have a1: "v g1 0 2 0 = 136 \<and> v g1 1 2 0 = 136 \<and> v g1 0 1 2 = 136 \<and> v g1 1 0 2 = 136 \<and>
      v g1 0 0 0 = 0 \<and> v g1 1 0 0 = 0"
    using h1 o c rng unfolding electrodes_hold_def bv by (metis (no_types))
  have a2: "v g2 0 5 0 = 0 \<and> v g2 1 5 0 = 0 \<and> v g2 0 1 5 = 0 \<and> v g2 1 0 5 = 0 \<and>
      v g2 0 0 0 = 1 \<and> v g2 1 0 0 = 1"
    using h2 ow cw rngw um unfolding electrodes_hold_def by (metis (no_types))
  show ?thesis using geo p1 p2 a1 a2 by blast
qed

text \<open>The definitions that an evaluation of the solver on a concrete grid unfolds.\<close>

lemmas solver_eval =
  set_boundaries_def initial_guess_def for_pixels_def pixels_eval tiny_level_def zero_grid_def
  boundary_pixel_def volume_pixel_def fix_pixel_def contact_pixel_def next_to_contact_def
  permittivity_pixel_def outer_contact_def point_contact_def set_v_def upd2_def
  poisson_sweep_def poisson_pixel_def kernel_def kernel_bulk_def kernel_edge_r_def
  kernel_edge_z_def poisson_update_def clamp_def s1_def s2_def Let_def

text \<open>
  C1 as stated fails on the edge of the point contact. In \<open>tiny_level\<close> the contact ends
  at \<open>RC = 1\<close> with \<open>dRC = -0.1\<close>, so line 462 gives the pixel \<open>(z, r) = (0, 1)\<close>, a pixel
  of the point contact, the tag \<^verbatim>\<open>bulk = 1\<close>, and the first Poisson sweep after the initial
  guess of lines 416-422 writes 48 there, not 0.
\<close>

theorem contact_edge_counterexample:
  "point_contact tiny_level 0 1 \<and> \<not> outer_contact tiny_level 0 1 \<and>
   (case poisson_relax tiny_level 1 1 0
           (set_boundaries tiny_level (initial_guess tiny_level zero_grid)) of
      Inl e \<Rightarrow> False
    | Inr (old, new, g) \<Rightarrow> v g new 0 1 = 48)"
  by (simp add: solver_eval)

subsection \<open>Space charge and undepleted pixels\<close>

lemma kernel_minimum:
  assumes "kernel p old zz r g = Inr (v_sum, eps_sum, mn)"
  shows "mn = Min (set (neighbour_values old zz r g))"
proof -
  consider "bulk g zz r = 0" | "bulk g zz r = 1" "r \<noteq> 0" | "bulk g zz r = 2" "zz \<noteq> 0"
    using assms by (auto simp: kernel_def split: if_splits)
  then show ?thesis
  proof cases
    case 1
    then have "kernel_bulk old zz r g = (v_sum, eps_sum, mn)"
      using assms by (simp add: kernel_def)
    then show ?thesis
      by (auto simp: kernel_bulk_def neighbour_values_def Let_def min.assoc
          split: if_splits)
  next
    case 2
    then have "kernel_edge_r old zz r g = (v_sum, eps_sum, mn)"
      using assms by (simp add: kernel_def)
    then show ?thesis
      using 2(2)
      by (auto simp: kernel_edge_r_def neighbour_values_def Let_def min.assoc min.commute
          min.left_commute split: if_splits)
  next
    case 3
    then have k: "kernel_edge_z p old zz r g = (v_sum, eps_sum, mn)"
      and c: "\<not> (int zz = LC p \<and> bulk g (zz - 1) r = 1 \<and> r = 0)"
      using assms by (auto simp: kernel_def split: if_splits)
    show ?thesis
      using k c 3(2)
      by (auto simp: kernel_edge_z_def neighbour_values_def Let_def min.assoc min.commute
          min.left_commute split: if_splits)
  qed
qed

text \<open>
  C2, as the code has it. For a pixel that is not fixed and whose sums \<open>v_sum\<close>,
  \<open>eps_sum\<close> and minimum \<open>mn\<close> lines 512-578 compute without a read outside the arrays:
  \<^item> \<open>mn\<close> is the least of the values of the old plane at the neighbours of the pixel;
  \<^item> with \<open>v_new = v_sum / eps_sum + vfraction * (N + MM * z) * e_over_E\<close>, the value stored
    is 0 if \<open>v_new \<le> 0\<close>, the \<^verbatim>\<open>bubble_volts\<close> after the update if \<open>0 < v_new < mn\<close>, and
    \<open>v_new\<close> otherwise;
  \<^item> \<^verbatim>\<open>bubble_volts\<close> changes only if \<open>0 < v_new < mn\<close> while it is still 0 (every sweep
    resets it to 0), and it becomes \<open>mn + 0.1\<close>;
  \<^item> the mark of the pixel changes only if \<open>vfraction > 0.45\<close>: to \<^verbatim>\<open>'*'\<close> when the value
    was replaced, to \<^verbatim>\<open>'.'\<close> otherwise.

  A fixed pixel is left as it is. After at least one sweep, in the plane written last,
  the value of every pixel of the grid that is not fixed is non-negative, and so is the
  value of every pixel of the grid if \<open>BV \<ge> 0\<close> (the fixed pixels hold \<open>BV\<close> or 0).
\<close>

theorem space_charge_clamping:
  "(0 \<le> bulk g zz r \<and> kernel p old zz r g = Inr (v_sum, eps_sum, mn) \<longrightarrow>
      mn = Min (set (neighbour_values old zz r g)) \<and>
      (let v_new = v_sum / eps_sum + vfraction g zz r * (N p + MM p * real zz) * e_over_E p
       in \<exists>g'. poisson_pixel p old new (zz, r) g = Inr g' \<and>
            v g' new zz r =
              (if v_new \<le> 0 then 0 else if v_new < mn then bubble_volts g' else v_new) \<and>
            bubble_volts g' =
              (if 0 < v_new \<and> v_new < mn \<and> bubble_volts g = 0 then mn + 0.1
               else bubble_volts g) \<and>
            undepleted g' r zz =
              (if vfraction g zz r > 0.45
               then (if v_new \<le> 0 \<or> v_new < mn then CHR ''*'' else CHR ''.'')
               else undepleted g r zz))) \<and>
   (bulk g zz r < 0 \<longrightarrow> poisson_pixel p old new (zz, r) g = Inr g) \<and>
   (poisson_relax p (Suc n) old1 new1 (set_boundaries p g0) = Inr (old', new', g1) \<and>
    int z1 \<le> L p \<and> int r1 \<le> R p \<and>
    (0 \<le> bulk (set_boundaries p g0) z1 r1 \<or> 0 \<le> BV p)
    \<longrightarrow> 0 \<le> v g1 new' z1 r1)"
proof -
  let ?v = "v_sum / eps_sum + vfraction g zz r * (N p + MM p * real zz) * e_over_E p"
  let ?g = "poisson_update p old new zz r (v_sum, eps_sum, mn) g"
  have a: "v ?g new zz r = (if ?v \<le> 0 then 0 else if ?v < mn then bubble_volts ?g else ?v)"
    unfolding poisson_update_value by (simp add: clamp_def Let_def)
  have b: "bubble_volts ?g =
         (if 0 < ?v \<and> ?v < mn \<and> bubble_volts g = 0 then mn + 0.1 else bubble_volts g)"
    unfolding poisson_update_value by (simp add: clamp_def Let_def)
  have c: "undepleted ?g r zz =
         (if vfraction g zz r > 0.45
          then (if ?v \<le> 0 \<or> ?v < mn then CHR ''*'' else CHR ''.'')
          else undepleted g r zz)"
    unfolding poisson_update_mark by (simp add: clamp_def Let_def)
  have px: "poisson_pixel p old new (zz, r) g = Inr ?g"
    if "0 \<le> bulk g zz r" "kernel p old zz r g = Inr (v_sum, eps_sum, mn)"
    using that by (simp add: poisson_pixel_def)
  have fx: "poisson_pixel p old new (zz, r) g = Inr g" if "bulk g zz r < 0"
    using that by (simp add: poisson_pixel_def)
  have d: "0 \<le> v g1 new' z1 r1"
    if rel: "poisson_relax p (Suc n) old1 new1 (set_boundaries p g0) = Inr (old', new', g1)"
      and rng: "int z1 \<le> L p" "int r1 \<le> R p"
      and or: "0 \<le> bulk (set_boundaries p g0) z1 r1 \<or> 0 \<le> BV p"
  proof (cases "0 \<le> BV p")
    case True
    from poisson_relax_all_nonneg(2)[OF rel True rng] show ?thesis .
  next
    case False
    then have nf: "0 \<le> bulk (set_boundaries p g0) z1 r1" using or by simp
    have "pixel_set p (BV p) 0 z1 r1 (set_boundaries p g0)" using set_boundaries_pixel[OF rng] .
    then have "\<not> outer_contact p z1 r1" using nf unfolding pixel_set_def by blast
    then have "int z1 \<noteq> L p" "int r1 \<noteq> R p" by (simp_all add: outer_contact_def)
    then have "int z1 < L p" "int r1 < R p" using rng by simp_all
    from poisson_relax_nonneg[OF rel this nf] show ?thesis .
  qed
  show ?thesis
    unfolding Let_def using a b c d px fx kernel_minimum by blast
qed

text \<open>
  The theorem on \<open>bubble_level\<close>, from the initial guess of lines 416-422. At the pixel
  \<open>(1, 1)\<close> the neighbours hold 4, 4, 2 and 2, the sums are 208 and 64, and the new value
  \<open>208/64 - 3 * 0.7072 = 1.1284\<close> is below the minimum 2: the pixel stores
  \<open>2 + 0.1\<close> and is marked. After three sweeps the values at \<open>(1,1)\<close> and at \<open>(0,1)\<close> are
  non-negative.
\<close>

theorem space_charge_clamping_witness:
  "0 \<le> bulk (set_boundaries bubble_level (initial_guess bubble_level zero_grid)) 1 1 \<and>
   kernel bubble_level 0 1 1 (set_boundaries bubble_level (initial_guess bubble_level zero_grid))
     = Inr (208, 64, 2) \<and>
   Min (set (neighbour_values 0 1 1
              (set_boundaries bubble_level (initial_guess bubble_level zero_grid)))) = 2 \<and>
   (\<exists>g'. poisson_pixel bubble_level 0 1 (1, 1)
            (set_boundaries bubble_level (initial_guess bubble_level zero_grid)) = Inr g' \<and>
      v g' 1 1 1 = 2.1 \<and> bubble_volts g' = 2.1 \<and> undepleted g' 1 1 = CHR ''*'') \<and>
   (\<exists>old' new' g1.
     poisson_relax bubble_level (Suc 2) 1 0
       (set_boundaries bubble_level (initial_guess bubble_level zero_grid))
       = Inr (old', new', g1) \<and>
     int 1 \<le> L bubble_level \<and> int 1 \<le> R bubble_level \<and> 0 \<le> BV bubble_level \<and>
     0 \<le> v g1 new' 1 1 \<and> 0 \<le> v g1 new' 0 1)"
proof -
  let ?g = "set_boundaries bubble_level (initial_guess bubble_level zero_grid)"
  have b: "0 \<le> bulk ?g 1 1" and k: "kernel bubble_level 0 1 1 ?g = Inr (208, 64, 2)"
    and c: "vfraction ?g 1 1 = 1" "bubble_volts ?g = 0"
    by (simp_all add: solver_eval bubble_level_def)
  have lv: "N bubble_level = - 3" "MM bubble_level = 0" "e_over_E bubble_level = 0.7072"
    by (simp_all add: bubble_level_def)
  note t = space_charge_clamping[where p = bubble_level and g = ?g and zz = 1 and r = 1
      and old = 0 and new = 1 and v_sum = 208 and eps_sum = 64 and mn = 2]
  from t b k have m: "2 = Min (set (neighbour_values 0 1 1 ?g))" by blast
  from t b k obtain g' where
    px: "poisson_pixel bubble_level 0 1 (1, 1) ?g = Inr g'"
    and vv: "v g' 1 1 1 =
      (if 208 / 64 + vfraction ?g 1 1 * (N bubble_level + MM bubble_level * real 1) *
            e_over_E bubble_level \<le> 0 then 0
       else if 208 / 64 + vfraction ?g 1 1 * (N bubble_level + MM bubble_level * real 1) *
            e_over_E bubble_level < 2 then bubble_volts g'
       else 208 / 64 + vfraction ?g 1 1 * (N bubble_level + MM bubble_level * real 1) *
            e_over_E bubble_level)"
    and bb: "bubble_volts g' =
      (if 0 < 208 / 64 + vfraction ?g 1 1 * (N bubble_level + MM bubble_level * real 1) *
            e_over_E bubble_level \<and>
          208 / 64 + vfraction ?g 1 1 * (N bubble_level + MM bubble_level * real 1) *
            e_over_E bubble_level < 2 \<and> bubble_volts ?g = 0
       then 2 + 0.1 else bubble_volts ?g)"
    and uu: "undepleted g' 1 1 =
      (if vfraction ?g 1 1 > 0.45
       then (if 208 / 64 + vfraction ?g 1 1 * (N bubble_level + MM bubble_level * real 1) *
                e_over_E bubble_level \<le> 0 \<or>
                208 / 64 + vfraction ?g 1 1 * (N bubble_level + MM bubble_level * real 1) *
                e_over_E bubble_level < 2
             then CHR ''*'' else CHR ''.'')
       else undepleted ?g 1 1)"
    unfolding Let_def by blast
  have bb': "bubble_volts g' = 2.1" unfolding bb c lv by simp
  have vv': "v g' 1 1 1 = 2.1" unfolding vv bb' c lv by simp
  have uu': "undepleted g' 1 1 = CHR ''*''" unfolding uu c lv by simp
  have geo: "geometry_ok bubble_level" by (simp add: geometry_ok_def bubble_level_def)
  from relax_returns(1)[OF geo] obtain o1 n1 g1 where
    r: "poisson_relax bubble_level (Suc 2) 1 0 ?g = Inr (o1, n1, g1)"
    by blast
  have f: "int 1 \<le> L bubble_level" "int 1 \<le> R bubble_level" "int 0 \<le> L bubble_level"
    "0 \<le> BV bubble_level"
    by (simp_all add: bubble_level_def)
  have "0 \<le> v g1 n1 1 1"
    using space_charge_clamping[where p = bubble_level and n = 2 and ?old1.0 = 1 and ?new1.0 = 0
        and ?g0.0 = "initial_guess bubble_level zero_grid" and old' = o1 and new' = n1
        and ?g1.0 = g1 and ?z1.0 = 1 and ?r1.0 = 1]
      r f by blast
  moreover have "0 \<le> v g1 n1 0 1"
    using space_charge_clamping[where p = bubble_level and n = 2 and ?old1.0 = 1 and ?new1.0 = 0
        and ?g0.0 = "initial_guess bubble_level zero_grid" and old' = o1 and new' = n1
        and ?g1.0 = g1 and ?z1.0 = 0 and ?r1.0 = 1]
      r f by blast
  ultimately have "\<exists>old' new' g1.
     poisson_relax bubble_level (Suc 2) 1 0 ?g = Inr (old', new', g1) \<and>
     int 1 \<le> L bubble_level \<and> int 1 \<le> R bubble_level \<and> 0 \<le> BV bubble_level \<and>
     0 \<le> v g1 new' 1 1 \<and> 0 \<le> v g1 new' 0 1"
    using r f by blast
  then show ?thesis using b k m[symmetric] px vv' bb' uu' by blast
qed

text \<open>
  C2 as stated fails on the value recorded and on the mark.

  On \<open>bubble_level\<close>, in the first sweep after the initial guess, the pixels \<open>(0,1)\<close> and
  \<open>(1,0)\<close> keep the values computed for them (the minimum of their neighbours is the 0 of
  the point contact). The first pixel whose new value falls below the minimum of its
  neighbours is \<open>(1,1)\<close>: its new value is 1.1284, the minimum is 2, and what
  \<^verbatim>\<open>bubble_volts\<close> records, and the pixel stores, is \<open>2 + 0.1\<close>.

  On \<open>charged_level\<close> the new value of the edge pixel \<open>(0,1)\<close> of the point contact is
  negative and is set to 0, but with \<^verbatim>\<open>vfraction = 0.2\<close> the pixel is not marked.
\<close>

theorem bubble_volts_counterexample:
  "kernel bubble_level 0 1 1 (set_boundaries bubble_level (initial_guess bubble_level zero_grid))
     = Inr (208, 64, 2) \<and>
   208 / 64 +
     vfraction (set_boundaries bubble_level (initial_guess bubble_level zero_grid)) 1 1 *
     (N bubble_level + MM bubble_level * real 1) * e_over_E bubble_level = (1.1284 :: real) \<and>
   (case poisson_relax bubble_level 1 1 0
           (set_boundaries bubble_level (initial_guess bubble_level zero_grid)) of
      Inl e \<Rightarrow> False
    | Inr (old, new, g) \<Rightarrow>
        old = 0 \<and> new = 1 \<and> v g 1 0 1 = 0.8784 \<and> v g 1 1 0 = 1022 / 1875 \<and>
        v g 1 1 1 = 2.1 \<and> bubble_volts g = 2.1) \<and>
   kernel charged_level 0 0 1 (set_boundaries charged_level (initial_guess charged_level zero_grid))
     = Inr (192, 136, 0) \<and>
   192 / 136 +
     vfraction (set_boundaries charged_level (initial_guess charged_level zero_grid)) 0 1 *
     (N charged_level + MM charged_level * real 0) * e_over_E charged_level < (0 :: real) \<and>
   (case poisson_relax charged_level 1 1 0
           (set_boundaries charged_level (initial_guess charged_level zero_grid)) of
      Inl e \<Rightarrow> False
    | Inr (old, new, g) \<Rightarrow>
        old = 0 \<and> new = 1 \<and> v g 1 0 1 = 0 \<and> vfraction g 0 1 = 0.2 \<and>
        undepleted g 1 0 = CHR '' '')"
proof -
  have a: "kernel bubble_level 0 1 1
             (set_boundaries bubble_level (initial_guess bubble_level zero_grid))
           = Inr (208, 64, 2)"
    by (simp add: solver_eval bubble_level_def)
  have b: "208 / 64 +
     vfraction (set_boundaries bubble_level (initial_guess bubble_level zero_grid)) 1 1 *
     (N bubble_level + MM bubble_level * real 1) * e_over_E bubble_level = (1.1284 :: real)"
    by (simp add: solver_eval bubble_level_def)
  have c: "(case poisson_relax bubble_level 1 1 0
           (set_boundaries bubble_level (initial_guess bubble_level zero_grid)) of
      Inl e \<Rightarrow> False
    | Inr (old, new, g) \<Rightarrow>
        old = 0 \<and> new = 1 \<and> v g 1 0 1 = 0.8784 \<and> v g 1 1 0 = 1022 / 1875 \<and>
        v g 1 1 1 = 2.1 \<and> bubble_volts g = 2.1)"
    by (simp add: solver_eval bubble_level_def)
  have d: "kernel charged_level 0 0 1
             (set_boundaries charged_level (initial_guess charged_level zero_grid))
           = Inr (192, 136, 0)"
    by (simp add: solver_eval charged_level_def)
  have e: "192 / 136 +
     vfraction (set_boundaries charged_level (initial_guess charged_level zero_grid)) 0 1 *
     (N charged_level + MM charged_level * real 0) * e_over_E charged_level < (0 :: real)"
    by (simp add: solver_eval charged_level_def)
  have f: "(case poisson_relax charged_level 1 1 0
           (set_boundaries charged_level (initial_guess charged_level zero_grid)) of
      Inl e \<Rightarrow> False
    | Inr (old, new, g) \<Rightarrow>
        old = 0 \<and> new = 1 \<and> v g 1 0 1 = 0 \<and> vfraction g 0 1 = 0.2 \<and>
        undepleted g 1 0 = CHR '' '')"
    by (simp add: solver_eval charged_level_def)
  show ?thesis using a b c d e f by blast
qed
section \<open>The preamplifier in get\_signal\<close>

lemma signal_at_start2:
  assumes "config_kept example_setup su"
  shows "m_wpot_old st = 0 \<Longrightarrow>
           r_signal (make_signal example_env start2 sg ELECTRON_CHARGE su st)
             = sg(1 := sg 1 + 0.4995)"
    and "m_wpot_old st = 0.5 \<Longrightarrow>
           r_signal (make_signal example_env start2 sg HOLE_CHARGE su st)
             = sg(1 := sg 1 + 0.0005)"
proof -
  obtain de dh iv fv fc where su: "su = example_setup\<lparr>dpath_e := de, dpath_h := dh,
           initial_vel := iv, final_vel := fv, final_charge_size_sq := fc\<rparr>"
    using example_config[OF assms] by blast
  show "m_wpot_old st = 0 \<Longrightarrow>
           r_signal (make_signal example_env start2 sg ELECTRON_CHARGE su st)
             = sg(1 := sg 1 + 0.4995)"
    unfolding su by (simp add: signal_eval start2_def)
  show "m_wpot_old st = 0.5 \<Longrightarrow>
           r_signal (make_signal example_env start2 sg HOLE_CHARGE su st)
             = sg(1 := sg 1 + 0.0005)"
    unfolding su by (simp add: signal_eval start2_def)
qed

text \<open>
  The call at \<open>z = 2\<close> with an output array, in a process that has just started: the
  charge signal is 0, 1/2, 1/2, 1/2.
\<close>

lemma charge_at_start2:
  "\<exists>m'. get_signal example_env start2 (Some 0) fresh_machine = Inr (1, m') \<and>
     g_signal (gs m') 0 = 0 \<and> g_signal (gs m') 1 = 1 / 2 \<and> g_signal (gs m') 2 = 1 / 2 \<and>
     g_signal (gs m') 3 = 1 / 2 \<and> config_kept example_setup (cfg m')"
proof -
  let ?m = fresh_machine
  let ?sg = "zero_signal 4 (g_signal (gs ?m))"
  let ?su = "clear_paths 4 example_setup"
  let ?e = "make_signal example_env start2 ?sg ELECTRON_CHARGE ?su (ms ?m)"
  let ?h = "make_signal example_env start2 (r_signal ?e) HOLE_CHARGE (r_setup ?e) (r_statics ?e)"
  have c: "cfg ?m = example_setup" "ms ?m = \<lparr>m_wpot = 0, m_wpot_old = 0, m_dwpot = 0\<rparr>"
    "mem ?m = (\<lambda>_. 0)" "g_signal (gs ?m) = (\<lambda>_. 0)"
    by (simp_all add: fresh_machine_def fresh_statics_def)
  have ts: "time_steps_calc example_setup = 4" "ntsteps_out example_setup = 4"
    "charge_cloud_size example_setup = 0" "use_diffusion example_setup = 0"
    by (simp_all add: example_setup_def)
  have k1: "config_kept example_setup ?su" by (rule clear_paths_config)
  have k2: "config_kept example_setup (r_setup ?e)"
    using config_kept_trans[OF k1 make_signal_config] .
  have k3: "config_kept example_setup (r_setup ?h)"
    using config_kept_trans[OF k2 make_signal_config] .
  have ins: "outside_detector start2 (cfg ?m) = 0"
    by (simp add: c outside_detector_def example_setup_def start2_def SQ_def)
  have ok: "fst (first_time example_env ?m)"
    and ib: "in_bounds (g_signal_len (snd (first_time example_env ?m))) (time_steps_calc (cfg ?m)) \<and>
             0 \<le> time_steps_calc (cfg ?m)"
    by (simp_all add: fresh_allocation c ts)
  have w: "m_wpot_old (ms ?m) = 0" by (simp add: c)
  have e: "r_statics ?e = (ms ?m)\<lparr>m_wpot := 0.5, m_wpot_old := 0.5\<rparr>"
    using electron_at_start2(1)[OF k1 w] by simp
  have es: "r_signal ?e = ?sg(1 := ?sg 1 + 0.4995)"
    by (rule signal_at_start2(1)[OF k1 w])
  have w2: "m_wpot_old (r_statics ?e) = 0.5" by (simp add: e)
  have h: "r_ret ?h = 0" using hole_at_start2(1)[OF k2 w2] by simp
  have hs: "r_signal ?h = (r_signal ?e)(1 := r_signal ?e 1 + 0.0005)"
    by (rule signal_at_start2(2)[OF k2 w2])
  have both: "(r_signal ?e)(1 := r_signal ?e 1 + 0.0005) = (\<lambda>j. if j = 1 then 1 / 2 else 0)"
    unfolding es by (auto simp: zero_signal_def c fun_eq_iff)
  have sg: "r_signal ?h = (\<lambda>j. if j = 1 then 1 / 2 else 0)"
    by (rule trans[OF hs both])
  have acc: "accumulate 4 (r_signal ?h) 0 = 0" "accumulate 4 (r_signal ?h) 1 = 1 / 2"
    "accumulate 4 (r_signal ?h) 2 = 1 / 2" "accumulate 4 (r_signal ?h) 3 = 1 / 2"
    unfolding sg by (simp_all add: accumulate_def upt_rec)
  have f: "config_kept example_setup su \<Longrightarrow> charge_cloud_size su = 0 \<and> use_diffusion su = 0 \<and>
     ntsteps_out su = 4 \<and> time_steps_calc su = 4" for su
    unfolding config_kept_def by (cases su) (simp add: example_setup_def)
  have cv: "convolve (r_setup ?h) 4 a b st = Inr st" for a b st
    using f[OF k3] by (simp add: convolve_def)
  obtain x where x: "compress (r_setup ?h) (accumulate 4 (r_signal ?h)) 0 (mem ?m) = Inr x"
    using f[OF k3] by (simp add: compress_def Let_def)
  have unf: "get_signal example_env start2 (Some 0) ?m =
      Inr (if r_ret ?h \<noteq> 0 then - 1 else 1,
           \<lparr>mem = rc_preamp (r_setup ?h) 0 x, cfg = r_setup ?h,
            gs = (snd (first_time example_env ?m))
                   \<lparr>g_signal := accumulate 4 (r_signal ?h), g_sum := g_sum (gs ?m),
                    g_tmp := g_tmp (gs ?m)\<rparr>,
            ms = r_statics ?h\<rparr>)"
    unfolding get_signal_inside[OF ins ok ib] by (simp add: Let_def c(1) ts(1) cv x)
  show ?thesis
    unfolding unf using h acc k3 by simp
qed

text \<open>
  With the charge signal 0, 1/2, 1/2, 1/2 in the four cells of the static array and
  \<open>comp_f = 1\<close>, the compressed output is the same four values.
\<close>

lemma compress_at_start2:
  assumes "config_kept example_setup su"
    and "compress su sg 0 h = Inr x"
  shows "x 0 = sg 0" "x 1 = sg 1" "x 2 = sg 2"
proof -
  have f: "ntsteps_out su = 4" "time_steps_calc su = 4"
    using assms(1) unfolding config_kept_def by (cases su, simp add: example_setup_def)+
  have "x = fold (\<lambda>j h. h(int j := h (int j) + sg j)) [0..<4]
              (fold (\<lambda>j h. h(int j := 0)) [0..<4] h)"
    using assms(2) by (simp add: compress_def f Let_def)
  then show "x 0 = sg 0" "x 1 = sg 1" "x 2 = sg 2"
    by (simp_all add: upt_rec numeral_2_eq_2)
qed

text \<open>
  C6, as the code has it. For buffers that coincide or do not overlap, \<open>y[0] = 0\<close> and
  \<^item> when \<open>tau \<ge> 1\<close> (\<open>tau\<close> in units of the output step), every later sample obeys
    \<open>y[j] = y[j-1] + (x[j-1] - y[j-1]) / tau\<close>;
  \<^item> when \<open>tau < 1\<close>, the output is the input shifted right by one sample.

  When \<^verbatim>\<open>get_signal\<close> returns from a call with an output array, at a point inside the
  detector and with the scratch arrays allocated, the output array holds the compressed
  content \<open>x\<close> of the static array \<^verbatim>\<open>signal\<close>, passed in place through \<^verbatim>\<open>rc_integrate\<close> exactly
  when the ratio of the preamplifier time constant to the output step is at least \<open>0.1\<close>,
  and \<open>x\<close> itself below that. (A zero output step is left out: the ratio is then an
  infinity or a NaN.)
\<close>

theorem rc_integrate_branches:
  assumes "buffers_ok s_in s_out n"
  shows "rc_out s_in s_out tau n h 0 = 0 \<and>
    (1 \<le> tau \<longrightarrow> (\<forall>j. 1 \<le> j \<and> int j < n \<longrightarrow>
        rc_out s_in s_out tau n h j =
          rc_out s_in s_out tau n h (j - 1) +
          (h (s_in + int (j - 1)) - rc_out s_in s_out tau n h (j - 1)) / tau)) \<and>
    (tau < 1 \<longrightarrow> (\<forall>j. 1 \<le> j \<and> int j < n \<longrightarrow>
        rc_out s_in s_out tau n h j = h (s_in + int (j - 1)))) \<and>
    (outside_detector pt (cfg m) = 0 \<and> fst (first_time env m) \<and> step_time_out (cfg m) \<noteq> 0 \<and>
     get_signal env pt (Some p) m = Inr (ret, m') \<longrightarrow>
       (\<exists>x. compress (cfg m') (g_signal (gs m')) p (mem m) = Inr x \<and>
            mem m' =
              (if preamp_tau (cfg m) / step_time_out (cfg m) \<ge> 0.1
               then snd (rc_integrate p p (preamp_tau (cfg m) / step_time_out (cfg m))
                           (ntsteps_out (cfg m)) x)
               else x)))"
proof -
  have filt: "rc_out s_in s_out tau n h j =
          rc_out s_in s_out tau n h (j - 1) +
          (h (s_in + int (j - 1)) - rc_out s_in s_out tau n h (j - 1)) / tau"
    if t: "1 \<le> tau" and j1: "1 \<le> j" and jn: "int j < n" for j
  proof -
    obtain i where j: "j = Suc i" using j1 by (cases j) auto
    have nt: "\<not> tau < 1" using t by simp
    have i: "int i < n" using jn j by simp
    show ?thesis
      unfolding rc_out_def j
      by (simp add: rc_integrate_filter[OF nt assms jn[unfolded j]]
            rc_integrate_filter[OF nt assms i] del: of_nat_Suc)
  qed
  have shft: "rc_out s_in s_out tau n h j = h (s_in + int (j - 1))"
    if "tau < 1" "1 \<le> j" "int j < n" for j
    using rc_integrate_shift[OF that(1) assms that(3), of h] that(2)
    by (simp add: rc_out_def)
  have pre: "\<exists>x. compress (cfg m') (g_signal (gs m')) p (mem m) = Inr x \<and>
            mem m' =
              (if preamp_tau (cfg m) / step_time_out (cfg m) \<ge> 0.1
               then snd (rc_integrate p p (preamp_tau (cfg m) / step_time_out (cfg m))
                           (ntsteps_out (cfg m)) x)
               else x)"
    if ins: "outside_detector pt (cfg m) = 0" and ok: "fst (first_time env m)"
      and r: "get_signal env pt (Some p) m = Inr (ret, m')"
  proof -
    let ?ts = "time_steps_calc (cfg m)"
    let ?g = "snd (first_time env m)"
    let ?e = "make_signal env pt (zero_signal ?ts (g_signal (gs m))) ELECTRON_CHARGE
                (clear_paths ?ts (cfg m)) (ms m)"
    let ?h = "make_signal env pt (r_signal ?e) HOLE_CHARGE (r_setup ?e) (r_statics ?e)"
    have ib: "in_bounds (g_signal_len ?g) ?ts \<and> 0 \<le> ?ts"
      by (rule get_signal_returned[OF ins ok r])
    have k: "config_kept (cfg m) (r_setup ?h)" by (rule carriers_config)
    from r obtain sg su tm x where
      cp: "compress (r_setup ?h) sg p (mem m) = Inr x"
      and m': "m' = \<lparr>mem = rc_preamp (r_setup ?h) p x, cfg = r_setup ?h,
                     gs = ?g\<lparr>g_signal := sg, g_sum := su, g_tmp := tm\<rparr>, ms = r_statics ?h\<rparr>"
      unfolding get_signal_inside[OF ins ok ib] Let_def
      by (auto split: sum.splits prod.splits)
    have "mem m' = rc_preamp (r_setup ?h) p x" by (simp add: m')
    then have "mem m' =
              (if preamp_tau (cfg m) / step_time_out (cfg m) \<ge> 0.1
               then snd (rc_integrate p p (preamp_tau (cfg m) / step_time_out (cfg m))
                           (ntsteps_out (cfg m)) x)
               else x)"
      by (simp add: rc_preamp_def config_kept_fields[OF k])
    moreover have "compress (cfg m') (g_signal (gs m')) p (mem m) = Inr x"
      using cp by (simp add: m')
    ultimately show ?thesis by blast
  qed
  show ?thesis
    using rc_out_zero filt shft pre by blast
qed

text \<open>
  The theorem for the call of \<^verbatim>\<open>get_signal\<close> at \<open>z = 2\<close> in a process that has just started
  (\<open>tau = 30 ns / 10 ns\<close>), where the compressed charge signal is 0, 1/2, 1/2, 1/2 and the
  output 0, 0, 1/6, 5/18; and for a three-sample ramp shifted in place.
\<close>

theorem rc_integrate_branches_witness:
  "buffers_ok 0 0 4 \<and> buffers_ok 0 0 3 \<and>
   outside_detector start2 (cfg fresh_machine) = 0 \<and>
   fst (first_time example_env fresh_machine) \<and>
   step_time_out (cfg fresh_machine) \<noteq> 0 \<and>
   (\<exists>m'. get_signal example_env start2 (Some 0) fresh_machine = Inr (1, m') \<and>
      mem m' 0 = 0 \<and> mem m' 1 = 0 \<and> mem m' 2 = 1 / 6 \<and> mem m' 3 = 5 / 18) \<and>
   rc_out 0 0 (1/2) 3 ramp 0 = 0 \<and>
   rc_out 0 0 (1/2) 3 ramp 2 = ramp 1"
proof -
  have ok4: "buffers_ok 0 0 4" and ok3: "buffers_ok 0 0 3" by (simp_all add: buffers_ok_def)
  have ins: "outside_detector start2 (cfg fresh_machine) = 0"
    by (simp add: fresh_machine_def outside_detector_def example_setup_def start2_def SQ_def)
  have al: "fst (first_time example_env fresh_machine)" by (simp add: fresh_allocation)
  have c: "step_time_out (cfg fresh_machine) \<noteq> 0"
    "preamp_tau (cfg fresh_machine) / step_time_out (cfg fresh_machine) = 3"
    "ntsteps_out (cfg fresh_machine) = 4"
    by (simp_all add: fresh_machine_def example_setup_def)
  from charge_at_start2 obtain m' where
    r: "get_signal example_env start2 (Some 0) fresh_machine = Inr (1, m')"
    and sg: "g_signal (gs m') 0 = 0" "g_signal (gs m') 1 = 1 / 2" "g_signal (gs m') 2 = 1 / 2"
    and k: "config_kept example_setup (cfg m')"
    by blast
  have "\<exists>x. compress (cfg m') (g_signal (gs m')) 0 (mem fresh_machine) = Inr x \<and>
            mem m' = snd (rc_integrate 0 0 3 4 x)"
    using rc_integrate_branches[OF ok4, of 3 ramp start2 fresh_machine example_env 0 1 m']
      ins al c(1) r
    unfolding c by simp
  then obtain x where
    cp: "compress (cfg m') (g_signal (gs m')) 0 (mem fresh_machine) = Inr x"
    and out: "mem m' = snd (rc_integrate 0 0 3 4 x)"
    by blast
  have x: "x 0 = 0" "x 1 = 1 / 2" "x 2 = 1 / 2"
    using compress_at_start2[OF k cp] sg by simp_all
  have y: "mem m' (int j) = rc_out 0 0 3 4 x j" for j
    by (simp add: out rc_out_def)
  note f = rc_integrate_branches[OF ok4, of 3 x]
  from f have f0: "rc_out 0 0 3 4 x 0 = 0" by blast
  from f have fa: "\<forall>j. 1 \<le> j \<and> int j < 4 \<longrightarrow>
        rc_out 0 0 3 4 x j =
          rc_out 0 0 3 4 x (j - 1) + (x (0 + int (j - 1)) - rc_out 0 0 3 4 x (j - 1)) / 3"
    by simp
  have s1: "rc_out 0 0 3 4 x 1 = rc_out 0 0 3 4 x 0 + (x 0 - rc_out 0 0 3 4 x 0) / 3"
    using fa[rule_format, of 1] by simp
  have s2: "rc_out 0 0 3 4 x 2 = rc_out 0 0 3 4 x 1 + (x 1 - rc_out 0 0 3 4 x 1) / 3"
    using fa[rule_format, of 2] by simp
  have s3: "rc_out 0 0 3 4 x 3 = rc_out 0 0 3 4 x 2 + (x 2 - rc_out 0 0 3 4 x 2) / 3"
    using fa[rule_format, of 3] by simp
  have r1: "rc_out 0 0 3 4 x 1 = 0" unfolding s1 f0 x by simp
  have r2: "rc_out 0 0 3 4 x 2 = 1 / 6" unfolding s2 r1 x by simp
  have r3: "rc_out 0 0 3 4 x 3 = 5 / 18" unfolding s3 r2 x by simp
  have y0: "mem m' 0 = 0" using y[of 0] f0 by simp
  have y1: "mem m' 1 = 0" using y[of 1] r1 by simp
  have y2: "mem m' 2 = 1 / 6" using y[of 2] r2 by simp
  have y3: "mem m' 3 = 5 / 18" using y[of 3] r3 by simp
  note g = rc_integrate_branches[OF ok3, of "1/2" ramp]
  from g have g0: "rc_out 0 0 (1/2) 3 ramp 0 = 0" by blast
  from g have ga: "\<forall>j. 1 \<le> j \<and> int j < 3 \<longrightarrow>
        rc_out 0 0 (1/2) 3 ramp j = ramp (0 + int (j - 1))" by simp
  show ?thesis
    using ok4 ok3 ins al c(1) r y0 y1 y2 y3 g0 ga[rule_format, of 2] by auto
qed

text \<open>
  C6 as stated fails between the two thresholds: with a time constant of half an output
  step (5 ns at 10 ns per sample, above \<open>0.1\<close>), sample 1 of the output is the input's
  sample 0, that is 1, where the recurrence would give 2. (Below \<open>0.1\<close> the output is
  not shifted either: sample 1 stays 2.)
\<close>

theorem rc_preamp_recurrence_counterexample:
  "preamp_tau (example_setup\<lparr>preamp_tau := 5\<rparr>) / step_time_out (example_setup\<lparr>preamp_tau := 5\<rparr>) \<ge> 0.1 \<and>
   rc_preamp (example_setup\<lparr>preamp_tau := 5\<rparr>) 0 ramp 1 = 1 \<and>
   rc_preamp (example_setup\<lparr>preamp_tau := 5\<rparr>) 0 ramp 0 +
     (ramp 0 - rc_preamp (example_setup\<lparr>preamp_tau := 5\<rparr>) 0 ramp 0) / (5 / 10) = 2 \<and>
   rc_preamp (example_setup\<lparr>preamp_tau := 1/2\<rparr>) 0 ramp 1 = 2 \<and> ramp 0 = 1"
  by (simp add: rc_preamp_def example_setup_def rc_integrate_def rc_shift.simps ramp_def)


end
